theory Spec2Isabelle
  imports Main "HOL-Library.AList"
begin

section \<open>Data model\<close>

text \<open>
  The development embeds \<^verbatim>\<open>geonetworkx/tools.py\<close>: \<^verbatim>\<open>spatial_points_merge\<close> and
  \<^verbatim>\<open>spatial_graph_merge\<close>.

  Node identifiers are strings (so \<^verbatim>\<open>str(p_index)\<close> is the identifier itself).
  Numbers are Python floats; the code only compares them, and subtracts two of them
  before a line split. They are kept abstract as a type \<open>'r\<close> with a linear order, a zero
  and a subtraction about which nothing is assumed (NaN is left out).
  A \<^verbatim>\<open>LineString\<close> is its coordinate sequence.
\<close>

type_synonym node = string
type_synonym 'r coord = "'r \<times> 'r"
type_synonym 'r line = "'r coord list"

text \<open>Attribute values: a number, a line geometry, or anything else.\<close>

datatype 'r val = Num 'r | Geom "'r line" | Other string

type_synonym 'r attrs = "string \<rightharpoonup> 'r val"

text \<open>
  An edge is named by \<open>(u, v, key)\<close>. Multigraphs name their edges \<^verbatim>\<open>(u, v, key)\<close>;
  simple graphs name them \<^verbatim>\<open>(u, v)\<close>, written here with key \<open>0\<close>.
\<close>

type_synonym edge_name = "node \<times> node \<times> nat"

text \<open>
  The exceptions. \<open>ValueError\<close> is what \<^verbatim>\<open>spatial_graph_merge\<close> raises itself, with its
  message. \<open>GeometryError\<close> stands for what the geometry library raises on a coordinate
  that is no number or on a geometry that is no line; the class of that exception depends
  on the value and on the library, and it is kept apart from the other three.
\<close>

datatype error = ValueError string | IndexError | KeyError | GeometryError

text \<open>
  A graph: the two class flags, the three attribute keys of a \<^verbatim>\<open>GeoGraph\<close>, the node
  dictionary and the edges. Both are insertion-ordered dictionaries, kept as association
  lists with distinct keys. The order of \<open>edges\<close> stands for the order in which
  \<^verbatim>\<open>G.edges\<close> reports them and, on an undirected graph, \<open>(u, v, key)\<close> is the orientation
  in which the edge is reported.
\<close>

record 'r geograph =
  directed :: bool
  multigraph :: bool
  x_key :: string
  y_key :: string
  edges_geometry_key :: string
  nodes :: "(node \<times> 'r attrs) list"
  edges :: "(edge_name \<times> 'r attrs) list"

definition node_names :: "'r geograph \<Rightarrow> node list" where
  "node_names g = map fst (nodes g)"

definition has_node :: "'r geograph \<Rightarrow> node \<Rightarrow> bool" where
  "has_node g n = (n \<in> set (node_names g))"

section \<open>The graph container (networkx)\<close>

text \<open>
  \<^verbatim>\<open>G.add_node(n, **attr)\<close>: a new node gets \<open>attr\<close>; on an existing node the
  attribute dictionary is updated with \<open>attr\<close>.
\<close>

definition add_node :: "'r geograph \<Rightarrow> node \<Rightarrow> 'r attrs \<Rightarrow> 'r geograph" where
  "add_node g n a =
     g\<lparr>nodes := AList.update n
          (case map_of (nodes g) n of None \<Rightarrow> a | Some old \<Rightarrow> old ++ a) (nodes g)\<rparr>"

text \<open>Two names denote the same edge: exactly, or swapped on an undirected graph.\<close>

fun same_edge :: "bool \<Rightarrow> edge_name \<Rightarrow> edge_name \<Rightarrow> bool" where
  "same_edge dir (u, v, k) (u', v', k') =
     (k = k' \<and> ((u = u' \<and> v = v') \<or> (\<not> dir \<and> u = v' \<and> v = u')))"

definition find_edge :: "'r geograph \<Rightarrow> edge_name \<Rightarrow> (edge_name \<times> 'r attrs) option" where
  "find_edge g e = find (\<lambda>(f, a). same_edge (directed g) f e) (edges g)"

definition has_edge :: "'r geograph \<Rightarrow> edge_name \<Rightarrow> bool" where
  "has_edge g e = (find_edge g e \<noteq> None)"

text \<open>
  \<^verbatim>\<open>G.remove_edge(*e)\<close>. The code calls it only under \<^verbatim>\<open>G.has_edge(*e)\<close>, so the
  \<^verbatim>\<open>NetworkXError\<close> of an absent edge is not modelled.
\<close>

definition remove_edge :: "'r geograph \<Rightarrow> edge_name \<Rightarrow> 'r geograph" where
  "remove_edge g e = g\<lparr>edges := filter (\<lambda>(f, a). \<not> same_edge (directed g) f e) (edges g)\<rparr>"

text \<open>
  \<^verbatim>\<open>MultiGraph.new_edge_key(u, v)\<close>: the number of edges between \<open>u\<close> and \<open>v\<close>,
  incremented while that key is taken.
\<close>

function next_free_key :: "nat list \<Rightarrow> nat \<Rightarrow> nat" where
  "next_free_key keys k = (if k \<in> set keys then next_free_key keys (Suc k) else k)"
  by pat_completeness auto
termination
proof (relation "measure (\<lambda>(keys, k). Suc (Max (set keys)) - k)")
  show "wf (measure (\<lambda>(keys, k). Suc (Max (set keys)) - k))" by simp
next
  fix keys :: "nat list" and k :: nat
  assume "k \<in> set keys"
  then have "k \<le> Max (set keys)" by simp
  then show "((keys, Suc k), (keys, k)) \<in> measure (\<lambda>(keys, k). Suc (Max (set keys)) - k)"
    by simp
qed

definition keys_between :: "'r geograph \<Rightarrow> node \<Rightarrow> node \<Rightarrow> nat list" where
  "keys_between g u v =
     map (\<lambda>((u', v', k), a). k)
       (filter (\<lambda>((u', v', k), a). same_edge (directed g) (u', v', k) (u, v, k)) (edges g))"

definition new_edge_key :: "'r geograph \<Rightarrow> node \<Rightarrow> node \<Rightarrow> nat" where
  "new_edge_key g u v = next_free_key (keys_between g u v) (length (keys_between g u v))"

text \<open>A node that an added edge mentions and the graph lacks is created with no attributes.\<close>

definition ensure_node :: "'r geograph \<Rightarrow> node \<Rightarrow> 'r geograph" where
  "ensure_node g n = (if has_node g n then g else g\<lparr>nodes := nodes g @ [(n, Map.empty)]\<rparr>)"

text \<open>
  \<^verbatim>\<open>G.add_edge(u, v, **attr)\<close> with a given key: an existing edge has its attribute
  dictionary updated, a new one is stored.
\<close>

definition add_edge_key :: "'r geograph \<Rightarrow> edge_name \<Rightarrow> 'r attrs \<Rightarrow> 'r geograph" where
  "add_edge_key g e a =
     (let g' = ensure_node (ensure_node g (fst e)) (fst (snd e))
      in case find_edge g e of
           None \<Rightarrow> g'\<lparr>edges := edges g @ [(e, a)]\<rparr>
         | Some (f, old) \<Rightarrow> g'\<lparr>edges := AList.update f (old ++ a) (edges g)\<rparr>)"

text \<open>
  \<^verbatim>\<open>G.add_edge(u, v, **attr)\<close> as the code calls it, with no key: a multigraph makes a
  new key, so the edge is always new; a simple graph has one edge per pair.
\<close>

definition add_edge :: "'r geograph \<Rightarrow> node \<Rightarrow> node \<Rightarrow> 'r attrs \<Rightarrow> 'r geograph" where
  "add_edge g u v a =
     add_edge_key g (u, v, if multigraph g then new_edge_key g u v else 0) a"

text \<open>
  \<^verbatim>\<open>nx.get_edge_attributes(G, name)\<close>: the dictionary from edge names to the value of
  attribute \<open>name\<close>, over the edges that have it, in edge order.
\<close>

definition get_edge_attributes :: "'r geograph \<Rightarrow> string \<Rightarrow> (edge_name \<times> 'r val) list" where
  "get_edge_attributes g name =
     List.map_filter (\<lambda>(e, a). map_option (Pair e) (a name)) (edges g)"

text \<open>
  \<^verbatim>\<open>Point([G.nodes[n][G.x_key], G.nodes[n][G.y_key]])\<close>: a missing node or attribute is
  a \<^verbatim>\<open>KeyError\<close>, a value that is no number a \<open>GeometryError\<close>.
\<close>

definition node_point :: "'r geograph \<Rightarrow> node \<Rightarrow> error + 'r coord" where
  "node_point g n =
     (case map_of (nodes g) n of
        None \<Rightarrow> Inl KeyError
      | Some a \<Rightarrow>
          (case a (x_key g) of
             None \<Rightarrow> Inl KeyError
           | Some vx \<Rightarrow>
               (case a (y_key g) of
                  None \<Rightarrow> Inl KeyError
                | Some vy \<Rightarrow>
                    (case (vx, vy) of
                       (Num x, Num y) \<Rightarrow> Inr (x, y)
                     | _ \<Rightarrow> Inl GeometryError))))"

text \<open>
  Modelled from the spec: \<^verbatim>\<open>GeoGraph.get_node_coordinates\<close> (module
  \<^verbatim>\<open>geonetworkx.geograph\<close>) is not among the sources. The spec speaks of "the two node
  coordinates"; the source reads them at lines 63 and 65 as \<open>node_point\<close> does.
\<close>

definition get_node_coordinates :: "'r geograph \<Rightarrow> node \<Rightarrow> error + 'r coord" where
  "get_node_coordinates g n = node_point g n"

section \<open>Collaborators\<close>

text \<open>
  The geometry library and the helpers of the package that are not among the sources
  are parameters of the model: the \<^verbatim>\<open>LineString\<close> methods \<^verbatim>\<open>length\<close>,
  \<^verbatim>\<open>project\<close> and \<^verbatim>\<open>interpolate\<close>; \<^verbatim>\<open>split_line\<close> and
  \<^verbatim>\<open>get_closest_line_from_points\<close> of \<^verbatim>\<open>geonetworkx.geometry_operations\<close>;
  \<^verbatim>\<open>euclidian_distance\<close> and \<^verbatim>\<open>get_new_node_unique_name\<close> of
  \<^verbatim>\<open>geonetworkx.utils\<close>; \<^verbatim>\<open>graph_nodes_to_gdf\<close> of \<^verbatim>\<open>geonetworkx.readwrite\<close>;
  and the constant \<^verbatim>\<open>settings.INTERSECTION_PREFIX\<close>.

  Two of them give an exception or a value. \<^verbatim>\<open>get_closest_line_from_points\<close> is
  called once, at line 38, before any mutation, also on a graph that has no line; what it
  raises there is its own. \<^verbatim>\<open>graph_nodes_to_gdf\<close> reads the coordinates of every
  node. The others are called on a line of the graph, on a point and on numbers.
\<close>

text \<open>
  A \<^verbatim>\<open>GeoDataFrame\<close> of points: one row per point, with its index label, the point of
  its geometry column and the dictionary of its columns.
\<close>

type_synonym 'r points_gdf = "(node \<times> 'r coord \<times> 'r attrs) list"

record 'r env =
  line_length :: "'r line \<Rightarrow> 'r"
  project :: "'r line \<Rightarrow> 'r coord \<Rightarrow> 'r"
  interpolate :: "'r line \<Rightarrow> 'r \<Rightarrow> 'r coord"
  split_line :: "'r line \<Rightarrow> 'r \<Rightarrow> 'r line \<times> 'r line"
  get_closest_line_from_points :: "'r coord list \<Rightarrow> 'r val list \<Rightarrow> error + nat list"
  euclidian_distance :: "'r coord \<Rightarrow> 'r coord \<Rightarrow> 'r"
  get_new_node_unique_name :: "'r geograph \<Rightarrow> node \<Rightarrow> node"
  graph_nodes_to_gdf :: "'r geograph \<Rightarrow> error + 'r points_gdf"
  INTERSECTION_PREFIX :: string

section \<open>Point placement (\<^verbatim>\<open>spatial_points_merge\<close>, lines 40 to 86)\<close>

text \<open>
  \<^verbatim>\<open>edges_to_split = defaultdict(dict)\<close>: from an edge name to the dictionary of its
  intersection nodes and their distance on the line. \<open>record_split\<close> is line 60,
  \<^verbatim>\<open>edges_to_split[e][n] = d\<close>.
\<close>

type_synonym 'r split_table = "(edge_name \<times> (node \<times> 'r) list) list"

definition record_split :: "'r split_table \<Rightarrow> edge_name \<Rightarrow> node \<Rightarrow> 'r \<Rightarrow> 'r split_table" where
  "record_split ets e n d =
     AList.update e
       (AList.update n d (case map_of ets e of None \<Rightarrow> [] | Some ns \<Rightarrow> ns)) ets"

text \<open>
  Lines 53 to 71 for one point, once its closest line is known: the name of the
  intersection node, with the graph and the table as they are then. Mutations made
  before an exception stay, so each step returns the state together with either the
  exception or its value.
\<close>

definition locate_intersection ::
  "('r::{linorder,zero}) env \<Rightarrow> 'r geograph \<Rightarrow> 'r split_table \<Rightarrow> node \<Rightarrow> 'r coord \<Rightarrow>
   edge_name \<Rightarrow> 'r line \<Rightarrow> ('r geograph \<times> 'r split_table) \<times> (error + node)" where
  "locate_intersection env g ets p_index point closest_edge_name closest_line =
     (let closest_line_length = line_length env closest_line;
          intersection_distance_on_line = project env closest_line point
      in if 0 < intersection_distance_on_line
            \<and> intersection_distance_on_line < closest_line_length
         then
           (let projected_point = interpolate env closest_line intersection_distance_on_line;
                intersection_node_name =
                  get_new_node_unique_name env g (INTERSECTION_PREFIX env @ p_index);
                intersection_node_info =
                  [x_key g \<mapsto> Num (fst projected_point), y_key g \<mapsto> Num (snd projected_point)];
                g' = add_node g intersection_node_name intersection_node_info
            in ((g', record_split ets closest_edge_name intersection_node_name
                       intersection_distance_on_line),
                Inr intersection_node_name))
         else
           (let first_node = fst closest_edge_name;
                second_node = fst (snd closest_edge_name)
            in case node_point g first_node of
                 Inl err \<Rightarrow> ((g, ets), Inl err)
               | Inr first_node_point \<Rightarrow>
                   (case node_point g second_node of
                      Inl err \<Rightarrow> ((g, ets), Inl err)
                    | Inr second_node_point \<Rightarrow>
                        (let distance_to_first_extremity =
                               euclidian_distance env point first_node_point;
                             distance_to_second_extremity =
                               euclidian_distance env point second_node_point
                         in ((g, ets),
                             Inr (if distance_to_first_extremity < distance_to_second_extremity
                                  then first_node else second_node))))))"

text \<open>Lines 72 to 86: the edges between the new node and its intersection node.\<close>

definition connect_node ::
  "'r geograph \<Rightarrow> string \<Rightarrow> node \<Rightarrow> node \<Rightarrow> 'r geograph \<times> error option" where
  "connect_node g merge_direction node_name intersection_node_name =
     (case get_node_coordinates g node_name of
        Inl err \<Rightarrow> (g, Some err)
      | Inr cn \<Rightarrow>
          (case get_node_coordinates g intersection_node_name of
             Inl err \<Rightarrow> (g, Some err)
           | Inr ci \<Rightarrow>
               (let in_edge_data = [edges_geometry_key g \<mapsto> Geom [cn, ci]]
                in if directed g then
                     (let out_edge_data = [edges_geometry_key g \<mapsto> Geom [ci, cn]]
                      in if merge_direction = ''both'' then
                           (add_edge (add_edge g node_name intersection_node_name in_edge_data)
                              intersection_node_name node_name out_edge_data, None)
                         else if merge_direction = ''in'' then
                           (add_edge g node_name intersection_node_name in_edge_data, None)
                         else
                           (add_edge g intersection_node_name node_name out_edge_data, None))
                   else (add_edge g node_name intersection_node_name in_edge_data, None))))"

text \<open>
  The body of the loop of line 41 for the point of position \<open>p\<close>. An index out of range
  is an \<^verbatim>\<open>IndexError\<close>; a closest geometry that is no line is a \<open>GeometryError\<close>.
\<close>

definition place_point ::
  "('r::{linorder,zero}) env \<Rightarrow> string \<Rightarrow> (edge_name \<times> 'r val) list \<Rightarrow> nat list \<Rightarrow>
   'r geograph \<times> 'r split_table \<Rightarrow> nat \<times> node \<times> 'r coord \<times> 'r attrs \<Rightarrow>
   ('r geograph \<times> 'r split_table) \<times> error option" where
  "place_point env merge_direction edges_as_lines lines_indexes st row =
     (case st of (g, ets) \<Rightarrow>
      case row of (p, p_index, point, cols) \<Rightarrow>
        (let node_name = get_new_node_unique_name env g p_index;
             node_info = cols(x_key g \<mapsto> Num (fst point), y_key g \<mapsto> Num (snd point));
             g1 = add_node g node_name node_info
         in if length lines_indexes \<le> p then ((g1, ets), Some IndexError)
            else if length edges_as_lines \<le> lines_indexes ! p then ((g1, ets), Some IndexError)
            else
              (case edges_as_lines ! (lines_indexes ! p) of
                 (closest_edge_name, Geom closest_line) \<Rightarrow>
                   (case locate_intersection env g1 ets p_index point
                           closest_edge_name closest_line of
                      (st2, Inl err) \<Rightarrow> (st2, Some err)
                    | ((g2, ets2), Inr intersection_node_name) \<Rightarrow>
                        (case connect_node g2 merge_direction node_name intersection_node_name of
                           (g3, r) \<Rightarrow> ((g3, ets2), r)))
               | _ \<Rightarrow> ((g1, ets), Some GeometryError))))"

fun place_points ::
  "('r::{linorder,zero}) env \<Rightarrow> string \<Rightarrow> (edge_name \<times> 'r val) list \<Rightarrow> nat list \<Rightarrow>
   'r geograph \<times> 'r split_table \<Rightarrow> (nat \<times> node \<times> 'r coord \<times> 'r attrs) list \<Rightarrow>
   ('r geograph \<times> 'r split_table) \<times> error option" where
  "place_points env md eal idxs st [] = (st, None)"
| "place_points env md eal idxs st (row # rows) =
     (case place_point env md eal idxs st row of
        (st', None) \<Rightarrow> place_points env md eal idxs st' rows
      | (st', Some err) \<Rightarrow> (st', Some err))"

section \<open>Edge splitting (\<^verbatim>\<open>spatial_points_merge\<close>, lines 87 to 112)\<close>

text \<open>
  Lines 98 to 104: the initial line is cut at the first distance, then the remainder is
  cut again at each next distance, taken from the previous one.
\<close>

definition cut_initial_line ::
  "('r::minus) env \<Rightarrow> 'r line \<Rightarrow> 'r list \<Rightarrow> 'r line list" where
  "cut_initial_line env initial_line distances_on_initial_line =
     (let cut0 = split_line env initial_line (distances_on_initial_line ! 0)
      in case fold
           (\<lambda>i (cut_lines, split_lines).
              (let cut_lines' = split_line env (snd cut_lines)
                     (distances_on_initial_line ! (i + 1) - distances_on_initial_line ! i)
               in (cut_lines', split_lines @ [fst cut_lines'])))
           [0..<length distances_on_initial_line - 1] (cut0, [fst cut0]) of
           (cut_lines, split_lines) \<Rightarrow> split_lines @ [snd cut_lines])"

text \<open>
  Line 96: \<^verbatim>\<open>sorted(intersection_nodes.keys(), key=lambda n: intersection_nodes[n])\<close>.
  Python's sort is stable, as \<open>sort_key\<close> is.
\<close>

definition sorted_intersection_nodes :: "(node \<times> ('r::linorder)) list \<Rightarrow> node list" where
  "sorted_intersection_nodes intersection_nodes =
     sort_key (\<lambda>n. the (map_of intersection_nodes n)) (map fst intersection_nodes)"

text \<open>Lines 105 to 112: the first edge, the last edge, then the intermediary edges.\<close>

definition add_split_edges ::
  "'r geograph \<Rightarrow> edge_name \<Rightarrow> node list \<Rightarrow> 'r line list \<Rightarrow> 'r geograph" where
  "add_split_edges g e sorted_nodes split_lines =
     (let first_edge_data = [edges_geometry_key g \<mapsto> Geom (split_lines ! 0)];
          g1 = add_edge g (fst e) (sorted_nodes ! 0) first_edge_data;
          last_edge_data = [edges_geometry_key g \<mapsto> Geom (last split_lines)];
          g2 = add_edge g1 (last sorted_nodes) (fst (snd e)) last_edge_data
      in fold
           (\<lambda>i g'. add_edge g' (sorted_nodes ! i) (sorted_nodes ! (i + 1))
                      [edges_geometry_key g \<mapsto> Geom (split_lines ! (i + 1))])
           [0..<length sorted_nodes - 1] g2)"

text \<open>The body of the loop of line 88 for one entry of the table.\<close>

definition split_edge ::
  "('r::{linorder,minus}) env \<Rightarrow> (edge_name \<times> 'r val) list \<Rightarrow> 'r geograph \<Rightarrow>
   edge_name \<times> (node \<times> 'r) list \<Rightarrow> 'r geograph \<times> error option" where
  "split_edge env edges_as_lines g entry =
     (case entry of (e, intersection_nodes) \<Rightarrow>
        if length intersection_nodes > 0 then
          (case map_of edges_as_lines e of
             None \<Rightarrow> (g, Some KeyError)
           | Some initial \<Rightarrow>
               (let g1 = (if has_edge g e then remove_edge g e else g)
                in case initial of
                     Geom initial_line \<Rightarrow>
                       (let sorted_nodes = sorted_intersection_nodes intersection_nodes;
                            distances_on_initial_line =
                              map (\<lambda>n. the (map_of intersection_nodes n)) sorted_nodes;
                            split_lines =
                              cut_initial_line env initial_line distances_on_initial_line
                        in (add_split_edges g1 e sorted_nodes split_lines, None))
                   | _ \<Rightarrow> (g1, Some GeometryError)))
        else (g, None))"

fun split_edges ::
  "('r::{linorder,minus}) env \<Rightarrow> (edge_name \<times> 'r val) list \<Rightarrow> 'r geograph \<Rightarrow>
   'r split_table \<Rightarrow> 'r geograph \<times> error option" where
  "split_edges env eal g [] = (g, None)"
| "split_edges env eal g (entry # entries) =
     (case split_edge env eal g entry of
        (g', None) \<Rightarrow> split_edges env eal g' entries
      | (g', Some err) \<Rightarrow> (g', Some err))"

section \<open>The two entry points\<close>

text \<open>
  Graphs are objects: the caller and the function share them by reference. The store
  maps references to graphs; a new object takes the next free reference.
\<close>

record 'r heap =
  objs :: "nat \<Rightarrow> 'r geograph"
  next_ref :: nat

definition new_object :: "'r heap \<Rightarrow> 'r geograph \<Rightarrow> 'r heap \<times> nat" where
  "new_object h g = (h\<lparr>objs := (objs h)(next_ref h := g), next_ref := Suc (next_ref h)\<rparr>, next_ref h)"

definition store :: "'r heap \<Rightarrow> nat \<Rightarrow> 'r geograph \<Rightarrow> 'r heap" where
  "store h r g = h\<lparr>objs := (objs h)(r := g)\<rparr>"

text \<open>
  \<^verbatim>\<open>graph.copy()\<close>: a new graph object with the same nodes, edges and attributes. The
  copy has attribute dictionaries of its own and shares the attribute values, which the
  code never changes in place.
\<close>

definition copy_graph :: "'r heap \<Rightarrow> nat \<Rightarrow> 'r heap \<times> nat" where
  "copy_graph h r = new_object h (objs h r)"

text \<open>
  Lines 34 to 112 on the graph that \<open>graph\<close> refers to: the search of the closest lines
  (line 38), whose exception leaves the graph as it is, then the two loops. Every
  mutation is made on that one object, and nothing else is read from the store
  meanwhile, so the loops run on its value and the object is written once, also when an
  exception ends them.
\<close>

definition merge_points_into ::
  "('r::{linorder,zero,minus}) env \<Rightarrow> 'r geograph \<Rightarrow> 'r points_gdf \<Rightarrow> string \<Rightarrow>
   'r geograph \<times> error option" where
  "merge_points_into env g points_gdf merge_direction =
     (let edges_as_lines = get_edge_attributes g (edges_geometry_key g);
          points_coords = map (\<lambda>(p_index, point, cols). point) points_gdf
      in case get_closest_line_from_points env points_coords (map snd edges_as_lines) of
           Inl err \<Rightarrow> (g, Some err)
         | Inr lines_indexes \<Rightarrow>
             (case place_points env merge_direction edges_as_lines lines_indexes (g, [])
                     (zip [0..<length points_gdf] points_gdf) of
                ((g1, edges_to_split), Some err) \<Rightarrow> (g1, Some err)
              | ((g1, edges_to_split), None) \<Rightarrow>
                  split_edges env edges_as_lines g1 edges_to_split))"

text \<open>
  \<^verbatim>\<open>spatial_points_merge(graph, points_gdf, inplace, merge_direction)\<close>: the store after
  the call, and the exception or the returned value (\<open>None\<close> is Python's \<^verbatim>\<open>None\<close>).
\<close>

definition spatial_points_merge ::
  "('r::{linorder,zero,minus}) env \<Rightarrow> 'r heap \<Rightarrow> nat \<Rightarrow> 'r points_gdf \<Rightarrow> bool \<Rightarrow> string \<Rightarrow>
   'r heap \<times> (error + nat option)" where
  "spatial_points_merge env h graph points_gdf inplace merge_direction =
     (case (if \<not> inplace then copy_graph h graph else (h, graph)) of
        (h1, graph') \<Rightarrow>
          (case merge_points_into env (objs h1 graph') points_gdf merge_direction of
             (g', Some err) \<Rightarrow> (store h1 graph' g', Inl err)
           | (g', None) \<Rightarrow>
               (store h1 graph' g', if \<not> inplace then Inr (Some graph') else Inr None)))"

text \<open>\<^verbatim>\<open>nx.subgraph(G, nbunch)\<close>: the graph induced on the nodes of \<open>nbunch\<close> that \<open>G\<close> has.\<close>

definition subgraph :: "'r geograph \<Rightarrow> node list \<Rightarrow> 'r geograph" where
  "subgraph g ns =
     g\<lparr>nodes := filter (\<lambda>(n, a). n \<in> set ns) (nodes g),
       edges := filter (\<lambda>((u, v, k), a). u \<in> set ns \<and> v \<in> set ns) (edges g)\<rparr>"

text \<open>
  \<^verbatim>\<open>nodes_gdf.drop(index=labels, inplace=True)\<close>: the rows of these labels are removed;
  a label that is no index of the frame is a \<^verbatim>\<open>KeyError\<close>.
\<close>

definition drop_rows :: "'r points_gdf \<Rightarrow> node list \<Rightarrow> error + 'r points_gdf" where
  "drop_rows gdf labels =
     (if \<forall>l \<in> set labels. l \<in> set (map fst gdf)
      then Inr (filter (\<lambda>(p_index, row). p_index \<notin> set labels) gdf)
      else Inl KeyError)"

text \<open>
  \<^verbatim>\<open>nx.compose(G, H)\<close> makes a new graph of the class of \<open>G\<close>, adds the nodes of \<open>G\<close>
  then those of \<open>H\<close> with their attributes, then the edges of \<open>G\<close> then those of \<open>H\<close>
  (with their keys on a multigraph). networkx documents it so: "Attribute values from H
  take precedent over attribute values from G." Neither \<open>G\<close> nor \<open>H\<close> is modified. Its
  check of the multigraph flags repeats line 133 and is not modelled; the attribute keys
  of the result are not read afterwards and are kept as those of \<open>G\<close>.
\<close>

definition compose :: "'r geograph \<Rightarrow> 'r geograph \<Rightarrow> 'r geograph" where
  "compose G H =
     fold (\<lambda>(e, a) R. add_edge_key R e a) (edges G @ edges H)
       (fold (\<lambda>(n, a) R. add_node R n a) (nodes G @ nodes H) (G\<lparr>nodes := [], edges := []\<rparr>))"

text \<open>
  \<^verbatim>\<open>spatial_graph_merge(base_graph, other_graph, inplace, merge_direction,
  unmerged_nodes, merging_nodes)\<close>.
\<close>

definition spatial_graph_merge ::
  "('r::{linorder,zero,minus}) env \<Rightarrow> 'r heap \<Rightarrow> nat \<Rightarrow> nat \<Rightarrow> bool \<Rightarrow> string \<Rightarrow>
   node list \<Rightarrow> node list \<Rightarrow> 'r heap \<times> (error + nat option)" where
  "spatial_graph_merge env h base_graph other_graph inplace merge_direction
       unmerged_nodes merging_nodes =
     (if directed (objs h base_graph) \<noteq> directed (objs h other_graph) then
        (h, Inl (ValueError ''Merging a directed graph and an undirected graph is ambiguous''))
      else if multigraph (objs h base_graph) \<noteq> multigraph (objs h other_graph) then
        (h, Inl (ValueError ''Merging a multigraph and a graph is ambiguous''))
      else if length unmerged_nodes > 0 \<and> length merging_nodes > 0 then
        (h, Inl (ValueError ''Cannot provide `unmerged_nodes` and `merging_nodes`''))
      else
        (case (if length merging_nodes > 0
               then graph_nodes_to_gdf env (subgraph (objs h other_graph) merging_nodes)
               else (case graph_nodes_to_gdf env (objs h other_graph) of
                       Inl err \<Rightarrow> Inl err
                     | Inr nodes_gdf \<Rightarrow> drop_rows nodes_gdf unmerged_nodes)) of
           Inl err \<Rightarrow> (h, Inl err)
         | Inr nodes_gdf \<Rightarrow>
             (case spatial_points_merge env h base_graph nodes_gdf inplace merge_direction of
                (h1, Inl err) \<Rightarrow> (h1, Inl err)
              | (h1, Inr returned) \<Rightarrow>
                  (let merged_graph = (if inplace then base_graph else the returned)
                   in case new_object h1 (compose (objs h1 merged_graph) (objs h1 other_graph)) of
                        (h2, merged_graph') \<Rightarrow>
                          (h2, if \<not> inplace then Inr (Some merged_graph') else Inr None)))))"

section \<open>A collaborator instance: integer coordinates, axis-parallel lines\<close>

text \<open>
  The concrete inputs of this development use integer coordinates and lines whose
  segments are parallel to an axis. There lengths and projections are integers, and
  the functions below compute what the geometry library computes. The distance between
  two points is given by its square, which orders the points as the distance does: the
  code only compares two distances.
\<close>

fun sq_distance :: "int coord \<Rightarrow> int coord \<Rightarrow> int" where
  "sq_distance (x1, y1) (x2, y2) = (x2 - x1) * (x2 - x1) + (y2 - y1) * (y2 - y1)"

text \<open>The length of a segment parallel to an axis.\<close>

fun grid_distance :: "int coord \<Rightarrow> int coord \<Rightarrow> int" where
  "grid_distance (x1, y1) (x2, y2) = \<bar>x2 - x1\<bar> + \<bar>y2 - y1\<bar>"

fun move_along :: "int coord \<Rightarrow> int coord \<Rightarrow> int \<Rightarrow> int coord" where
  "move_along (x1, y1) (x2, y2) d = (x1 + sgn (x2 - x1) * d, y1 + sgn (y2 - y1) * d)"

fun grid_length :: "int line \<Rightarrow> int" where
  "grid_length (p # q # r) = grid_distance p q + grid_length (q # r)"
| "grid_length [p] = 0"
| "grid_length [] = 0"

fun grid_interpolate :: "int line \<Rightarrow> int \<Rightarrow> int coord" where
  "grid_interpolate (p # q # r) d =
     (if d \<le> grid_distance p q then move_along p q d
      else grid_interpolate (q # r) (d - grid_distance p q))"
| "grid_interpolate [p] d = p"
| "grid_interpolate [] d = (0, 0)"

fun grid_split :: "int line \<Rightarrow> int \<Rightarrow> int line \<times> int line" where
  "grid_split (p # q # r) d =
     (if d \<le> grid_distance p q then ([p, move_along p q d], move_along p q d # q # r)
      else (case grid_split (q # r) (d - grid_distance p q) of (a, b) \<Rightarrow> (p # a, b)))"
| "grid_split [p] d = ([p], [p])"
| "grid_split [] d = ([], [])"

text \<open>The foot of a point on one segment, as a distance from the start of the segment.\<close>

fun foot_on :: "int coord \<Rightarrow> int coord \<Rightarrow> int coord \<Rightarrow> int" where
  "foot_on (x1, y1) (x2, y2) (cx, cy) =
     max 0 (min (grid_distance (x1, y1) (x2, y2))
       (sgn (x2 - x1) * (cx - x1) + sgn (y2 - y1) * (cy - y1)))"

text \<open>The nearest point of a line: its squared distance to the point and its distance on the line.\<close>

fun nearest_on :: "int line \<Rightarrow> int coord \<Rightarrow> int \<times> int" where
  "nearest_on (p # q # r) c =
     (let t = foot_on p q c; d2 = sq_distance (move_along p q t) c
      in if r = [] then (d2, t)
         else (case nearest_on (q # r) c of
                 (d2', t') \<Rightarrow> if d2 \<le> d2' then (d2, t) else (d2', grid_distance p q + t')))"
| "nearest_on [p] c = (sq_distance p c, 0)"
| "nearest_on [] c = (0, 0)"

definition grid_project :: "int line \<Rightarrow> int coord \<Rightarrow> int" where
  "grid_project l c = snd (nearest_on l c)"

text \<open>
  The closest line of a graph that has one single edge. With no line to search there is
  no closest line: a \<^verbatim>\<open>ValueError\<close>.
\<close>

definition only_line :: "int coord list \<Rightarrow> int val list \<Rightarrow> error + nat list" where
  "only_line points_coords lines =
     (if lines = [] then Inl (ValueError ''no line'') else Inr (map (\<lambda>c. 0) points_coords))"

text \<open>A name that the graph does not use: the name itself, or the name made longer than every node name.\<close>

definition padded_name :: "'r geograph \<Rightarrow> node \<Rightarrow> node" where
  "padded_name g n =
     (if n \<in> set (node_names g)
      then n @ replicate (Suc (Max (insert 0 (length ` set (node_names g))))) (CHR ''_'')
      else n)"

text \<open>One row per node: its identifier, its point and its attributes.\<close>

fun node_rows :: "'r geograph \<Rightarrow> (node \<times> 'r attrs) list \<Rightarrow> error + 'r points_gdf" where
  "node_rows g [] = Inr []"
| "node_rows g ((n, a) # ns) =
     (case node_point g n of
        Inl err \<Rightarrow> Inl err
      | Inr c \<Rightarrow> (case node_rows g ns of Inl err \<Rightarrow> Inl err | Inr rows \<Rightarrow> Inr ((n, c, a) # rows)))"

definition grid_env :: "int env" where
  "grid_env =
     \<lparr>line_length = grid_length, project = grid_project, interpolate = grid_interpolate,
      split_line = grid_split, get_closest_line_from_points = only_line,
      euclidian_distance = sq_distance, get_new_node_unique_name = padded_name,
      graph_nodes_to_gdf = (\<lambda>g. node_rows g (nodes g)), INTERSECTION_PREFIX = ''i_''\<rparr>"

section \<open>Contracts and invariants used by the statements\<close>

text \<open>
  The contract of \<^verbatim>\<open>get_new_node_unique_name\<close>: the name it returns is not a node of
  the graph.
\<close>

definition unique_names :: "'r env \<Rightarrow> bool" where
  "unique_names env = (\<forall>g n. get_new_node_unique_name env g n \<notin> set (node_names g))"

text \<open>
  The invariant of the graph container: the nodes of every edge are nodes of the graph
  (\<^verbatim>\<open>add_edge\<close> creates the nodes it does not find).
\<close>

definition edges_closed :: "'r geograph \<Rightarrow> bool" where
  "edges_closed g =
     (\<forall>entry \<in> set (edges g).
        fst (fst entry) \<in> set (node_names g) \<and> fst (snd (fst entry)) \<in> set (node_names g))"

text \<open>The edge names of a dictionary of lines are between nodes of the graph.\<close>

definition lines_known :: "'r geograph \<Rightarrow> (edge_name \<times> 'r val) list \<Rightarrow> bool" where
  "lines_known g eal =
     (\<forall>entry \<in> set eal.
        fst (fst entry) \<in> set (node_names g) \<and> fst (snd (fst entry)) \<in> set (node_names g))"

text \<open>
  The edges that lines 72 to 86 add between a new node \<open>n\<close> at \<open>cn\<close> and its
  intersection node \<open>i\<close> at \<open>ci\<close>, when none of them exists yet.
\<close>

definition link_edges ::
  "'r geograph \<Rightarrow> string \<Rightarrow> node \<Rightarrow> node \<Rightarrow> 'r coord \<Rightarrow> 'r coord \<Rightarrow> (edge_name \<times> 'r attrs) list" where
  "link_edges g merge_direction n i cn ci =
     (if directed g then
        (if merge_direction = ''both'' then
           [((n, i, 0), [edges_geometry_key g \<mapsto> Geom [cn, ci]]),
            ((i, n, 0), [edges_geometry_key g \<mapsto> Geom [ci, cn]])]
         else if merge_direction = ''in'' then
           [((n, i, 0), [edges_geometry_key g \<mapsto> Geom [cn, ci]])]
         else [((i, n, 0), [edges_geometry_key g \<mapsto> Geom [ci, cn]])])
      else [((n, i, 0), [edges_geometry_key g \<mapsto> Geom [cn, ci]])])"

text \<open>The three exceptions of lines 131 to 136, by their messages.\<close>

definition configuration_error :: "error \<Rightarrow> bool" where
  "configuration_error err =
     (err = ValueError ''Merging a directed graph and an undirected graph is ambiguous''
      \<or> err = ValueError ''Merging a multigraph and a graph is ambiguous''
      \<or> err = ValueError ''Cannot provide `unmerged_nodes` and `merging_nodes`'')"

section \<open>Concrete graphs\<close>

text \<open>
  The graph of the scenarios: one edge between \<open>A\<close> at \<open>(0, 0)\<close> and \<open>B\<close> at
  \<open>(10, 0)\<close>, a straight segment. \<open>road\<close> is undirected, \<open>one_way\<close> directed.
\<close>

definition road :: "int geograph" where
  "road =
     \<lparr>directed = False, multigraph = False, x_key = ''x'', y_key = ''y'',
      edges_geometry_key = ''geometry'',
      nodes = [(''A'', [''x'' \<mapsto> Num 0, ''y'' \<mapsto> Num 0]),
               (''B'', [''x'' \<mapsto> Num 10, ''y'' \<mapsto> Num 0])],
      edges = [((''A'', ''B'', 0), [''geometry'' \<mapsto> Geom [(0, 0), (10, 0)]])]\<rparr>"

definition one_way :: "int geograph" where
  "one_way = road\<lparr>directed := True\<rparr>"

definition road_lines :: "(edge_name \<times> int val) list" where
  "road_lines = [((''A'', ''B'', 0), Geom [(0, 0), (10, 0)])]"

text \<open>
  A bent edge whose two ends are close: from \<open>A\<close> at \<open>(0, 0)\<close> by \<open>(5, 0)\<close> and
  \<open>(5, 2)\<close> to \<open>B\<close> at \<open>(0, 2)\<close>. The point \<open>(-1, 1)\<close> is as far from \<open>A\<close> as from
  \<open>B\<close>, and its nearest point on the line is the start of the line.
\<close>

definition horseshoe :: "int geograph" where
  "horseshoe =
     \<lparr>directed = False, multigraph = False, x_key = ''x'', y_key = ''y'',
      edges_geometry_key = ''geometry'',
      nodes = [(''A'', [''x'' \<mapsto> Num 0, ''y'' \<mapsto> Num 0]),
               (''B'', [''x'' \<mapsto> Num 0, ''y'' \<mapsto> Num 2])],
      edges = [((''A'', ''B'', 0), [''geometry'' \<mapsto> Geom [(0, 0), (5, 0), (5, 2), (0, 2)]])]\<rparr>"

definition horseshoe_lines :: "(edge_name \<times> int val) list" where
  "horseshoe_lines = [((''A'', ''B'', 0), Geom [(0, 0), (5, 0), (5, 2), (0, 2)])]"

text \<open>A store with one object, the directed road, at reference \<open>0\<close>.\<close>

definition one_way_heap :: "int heap" where
  "one_way_heap = \<lparr>objs = (\<lambda>r. one_way), next_ref = 1\<rparr>"

text \<open>
  A second graph for the graph merge: the nodes \<open>C\<close> at \<open>(3, 1)\<close> and \<open>D\<close> at \<open>(7, 1)\<close>
  and the edge between them. \<open>town\<close> is a store with the road at reference \<open>0\<close> and this
  graph at reference \<open>1\<close>.
\<close>

definition lane :: "int geograph" where
  "lane =
     \<lparr>directed = False, multigraph = False, x_key = ''x'', y_key = ''y'',
      edges_geometry_key = ''geometry'',
      nodes = [(''C'', [''x'' \<mapsto> Num 3, ''y'' \<mapsto> Num 1]),
               (''D'', [''x'' \<mapsto> Num 7, ''y'' \<mapsto> Num 1])],
      edges = [((''C'', ''D'', 0), [''geometry'' \<mapsto> Geom [(3, 1), (7, 1)]])]\<rparr>"

definition town :: "int heap" where
  "town = \<lparr>objs = (\<lambda>r. if r = 0 then road else lane), next_ref = 2\<rparr>"

text \<open>
  A second graph that names one of its nodes as the road does: \<open>A\<close>, here at \<open>(5, 1)\<close>.
  \<open>survey\<close> is a store with the road at reference \<open>0\<close> and this graph at reference \<open>1\<close>.
\<close>

definition marker :: "int geograph" where
  "marker =
     \<lparr>directed = False, multigraph = False, x_key = ''x'', y_key = ''y'',
      edges_geometry_key = ''geometry'',
      nodes = [(''A'', [''x'' \<mapsto> Num 5, ''y'' \<mapsto> Num 1])],
      edges = []\<rparr>"

definition survey :: "int heap" where
  "survey = \<lparr>objs = (\<lambda>r. if r = 0 then road else marker), next_ref = 2\<rparr>"

text \<open>
  A graph with no edge, the one node \<open>A\<close> at \<open>(0, 0)\<close>. \<open>outpost\<close> is a store with it
  at reference \<open>0\<close> and the graph of \<open>C\<close> and \<open>D\<close> at reference \<open>1\<close>.
\<close>

definition bare :: "int geograph" where
  "bare =
     \<lparr>directed = False, multigraph = False, x_key = ''x'', y_key = ''y'',
      edges_geometry_key = ''geometry'',
      nodes = [(''A'', [''x'' \<mapsto> Num 0, ''y'' \<mapsto> Num 0])],
      edges = []\<rparr>"

definition outpost :: "int heap" where
  "outpost = \<lparr>objs = (\<lambda>r. if r = 0 then bare else lane), next_ref = 2\<rparr>"

text \<open>\<^verbatim>\<open>G.nodes[n].get(key)\<close>: the value of one attribute of a node, if any.\<close>

definition node_attribute :: "'r geograph \<Rightarrow> node \<Rightarrow> string \<Rightarrow> 'r val option" where
  "node_attribute g n key = (case map_of (nodes g) n of None \<Rightarrow> None | Some a \<Rightarrow> a key)"

text \<open>
  Line 54 for one row of the loop of line 41: the projection of the point on its closest
  line is inside the line.
\<close>

definition interior_projection ::
  "('r::{linorder,zero}) env \<Rightarrow> (edge_name \<times> 'r val) list \<Rightarrow> nat list \<Rightarrow>
   nat \<times> node \<times> 'r coord \<times> 'r attrs \<Rightarrow> bool" where
  "interior_projection env eal idxs row =
     (case row of (p, p_index, point, cols) \<Rightarrow>
        p < length idxs \<and> idxs ! p < length eal \<and>
        (case snd (eal ! (idxs ! p)) of
           Geom line \<Rightarrow> 0 < project env line point \<and> project env line point < line_length env line
         | _ \<Rightarrow> False))"

text \<open>The edges and the intersection nodes of a table of splits are known to the graph.\<close>

definition table_known :: "'r geograph \<Rightarrow> 'r split_table \<Rightarrow> bool" where
  "table_known g ets =
     (\<forall>entry \<in> set ets.
        fst (fst entry) \<in> set (node_names g) \<and> fst (snd (fst entry)) \<in> set (node_names g)
        \<and> fst ` set (snd entry) \<subseteq> set (node_names g))"

text \<open>
  The number of rows of a frame of points whose projection is inside the closest line,
  with the lines and the indexes of lines 35 to 38 (none when line 38 raises).
\<close>

definition interior_count ::
  "('r::{linorder,zero}) env \<Rightarrow> 'r geograph \<Rightarrow> 'r points_gdf \<Rightarrow> nat" where
  "interior_count env g points_gdf =
     (let edges_as_lines = get_edge_attributes g (edges_geometry_key g);
          points_coords = map (\<lambda>(p_index, point, cols). point) points_gdf
      in case get_closest_line_from_points env points_coords (map snd edges_as_lines) of
           Inl err \<Rightarrow> 0
         | Inr lines_indexes \<Rightarrow>
             length (filter (interior_projection env edges_as_lines lines_indexes)
                       (zip [0..<length points_gdf] points_gdf)))"

text \<open>
  A loop road: the one node \<open>A\<close> at \<open>(0, 0)\<close> and an undirected edge from \<open>A\<close> to \<open>A\<close>
  around the square of side \<open>2\<close>, of length \<open>8\<close>. The point \<open>(1, -1)\<close> projects on it at
  distance \<open>1\<close>, at \<open>(1, 0)\<close>.
\<close>

definition ring :: "int geograph" where
  "ring =
     \<lparr>directed = False, multigraph = False, x_key = ''x'', y_key = ''y'',
      edges_geometry_key = ''geometry'',
      nodes = [(''A'', [''x'' \<mapsto> Num 0, ''y'' \<mapsto> Num 0])],
      edges = [((''A'', ''A'', 0), [''geometry'' \<mapsto> Geom [(0, 0), (2, 0), (2, 2), (0, 2), (0, 0)]])]\<rparr>"

text \<open>\<^verbatim>\<open>G.edges[e][key]\<close>: the value of one attribute of an edge, if any.\<close>

definition edge_attribute :: "'r geograph \<Rightarrow> edge_name \<Rightarrow> string \<Rightarrow> 'r val option" where
  "edge_attribute g e key = (case find_edge g e of None \<Rightarrow> None | Some (f, a) \<Rightarrow> a key)"

text \<open>
  The sub-segments in the words of the specification: the line is cut at the first
  distance, and the remainder is cut again at each next distance, taken from the
  previous cut point.
\<close>

fun cut_remainder :: "('r::minus) env \<Rightarrow> 'r line \<Rightarrow> 'r \<Rightarrow> 'r list \<Rightarrow> 'r line list" where
  "cut_remainder env line prev [] = [line]"
| "cut_remainder env line prev (d # ds) =
     (case split_line env line (d - prev) of
        (before, after) \<Rightarrow> before # cut_remainder env after d ds)"

fun sub_segments :: "('r::minus) env \<Rightarrow> 'r line \<Rightarrow> 'r list \<Rightarrow> 'r line list" where
  "sub_segments env line [] = [line]"
| "sub_segments env line (d # ds) =
     (case split_line env line d of
        (before, after) \<Rightarrow> before # cut_remainder env after d ds)"

text \<open>
  The chain of the specification, from \<open>u\<close> through the nodes \<open>ns\<close> to \<open>v\<close>: each link with
  its sub-segment.
\<close>

definition chain_links :: "node \<Rightarrow> node list \<Rightarrow> node \<Rightarrow> 'a list \<Rightarrow> (node \<times> node \<times> 'a) list" where
  "chain_links u ns v segs = zip (u # ns) (zip (ns @ [v]) segs)"

section \<open>Properties of the graph container\<close>

lemma update_absent: "k \<notin> fst ` set al \<Longrightarrow> AList.update k v al = al @ [(k, v)]"
  by (induction al) auto

lemma map_of_absent: "k \<notin> fst ` set al \<Longrightarrow> map_of al k = None"
  by (simp add: map_of_eq_None_iff)

lemma add_node_new:
  "n \<notin> set (node_names g) \<Longrightarrow> add_node g n a = g\<lparr>nodes := nodes g @ [(n, a)]\<rparr>"
  by (simp add: add_node_def node_names_def update_absent map_of_absent)

lemma find_edge_None:
  "find_edge g e = None \<longleftrightarrow> (\<forall>entry \<in> set (edges g). \<not> same_edge (directed g) (fst entry) e)"
  by (fastforce simp: find_edge_def find_None_iff)

lemma ensure_node_present: "n \<in> set (node_names g) \<Longrightarrow> ensure_node g n = g"
  by (simp add: ensure_node_def has_node_def)

lemma same_edge_ends:
  "same_edge dir f (u, v, k) \<Longrightarrow> (fst f = u \<and> fst (snd f) = v) \<or> (fst f = v \<and> fst (snd f) = u)"
  by (cases f) auto

lemma next_free_key_absent: "k \<notin> set keys \<Longrightarrow> next_free_key keys k = k"
  by simp

lemma keys_between_empty:
  "\<forall>entry \<in> set (edges g). \<not> same_edge (directed g) (fst entry) (u, v, snd (snd (fst entry)))
   \<Longrightarrow> keys_between g u v = []"
  by (auto simp: keys_between_def filter_empty_conv)

lemma add_edge_new:
  assumes "u \<in> set (node_names g)" "v \<in> set (node_names g)"
    and "\<forall>entry \<in> set (edges g). \<not> same_edge (directed g) (fst entry) (u, v, snd (snd (fst entry)))"
  shows "add_edge g u v a = g\<lparr>edges := edges g @ [((u, v, 0), a)]\<rparr>"
proof -
  have k: "(if multigraph g then new_edge_key g u v else 0) = 0"
    using keys_between_empty[OF assms(3)] by (simp add: new_edge_key_def)
  have "find_edge g (u, v, 0) = None"
  proof (unfold find_edge_None, rule ballI)
    fix entry assume e: "entry \<in> set (edges g)"
    obtain u' v' k' a' where [simp]: "entry = ((u', v', k'), a')" by (metis prod.collapse)
    from assms(3) e show "\<not> same_edge (directed g) (fst entry) (u, v, 0)" by fastforce
  qed
  then show ?thesis
    using assms(1,2) by (simp add: add_edge_def k add_edge_key_def ensure_node_present)
qed

lemma node_point_known:
  assumes "node_point g n = Inr c"
  shows "n \<in> set (node_names g)"
proof -
  from assms have "map_of (nodes g) n \<noteq> None"
    by (auto simp: node_point_def split: option.splits)
  then show ?thesis
    by (simp add: node_names_def map_of_eq_None_iff)
qed

lemma isolated_no_edge:
  assumes "\<forall>entry \<in> set (edges g). fst (fst entry) \<noteq> n \<and> fst (snd (fst entry)) \<noteq> n"
    and "u = n \<or> v = n"
  shows "\<forall>entry \<in> set (edges g). \<not> same_edge dir (fst entry) (u, v, snd (snd (fst entry)))"
proof
  fix entry
  assume "entry \<in> set (edges g)"
  with assms(1) have "fst (fst entry) \<noteq> n" "fst (snd (fst entry)) \<noteq> n" by auto
  with assms(2) same_edge_ends[of dir "fst entry" u v "snd (snd (fst entry))"]
  show "\<not> same_edge dir (fst entry) (u, v, snd (snd (fst entry)))" by auto
qed

lemma connect_node_new:
  assumes cn: "get_node_coordinates g n = Inr cn" and ci: "get_node_coordinates g i = Inr ci"
    and ne: "n \<noteq> i"
    and iso: "\<forall>entry \<in> set (edges g). fst (fst entry) \<noteq> n \<and> fst (snd (fst entry)) \<noteq> n"
  shows "connect_node g md n i = (g\<lparr>edges := edges g @ link_edges g md n i cn ci\<rparr>, None)"
proof -
  have n: "n \<in> set (node_names g)" and i: "i \<in> set (node_names g)"
    using cn ci by (auto simp: get_node_coordinates_def dest: node_point_known)
  have a1: "add_edge g n i a = g\<lparr>edges := edges g @ [((n, i, 0), a)]\<rparr>" for a
    by (rule add_edge_new[OF n i isolated_no_edge[OF iso]]) simp
  have a2: "add_edge g i n a = g\<lparr>edges := edges g @ [((i, n, 0), a)]\<rparr>" for a
    by (rule add_edge_new[OF i n isolated_no_edge[OF iso]]) simp
  have a3: "add_edge (g\<lparr>edges := edges g @ [((n, i, 0), a)]\<rparr>) i n b
        = g\<lparr>edges := edges g @ [((n, i, 0), a), ((i, n, 0), b)]\<rparr>" if d: "directed g" for a b
  proof -
    let ?g = "g\<lparr>edges := edges g @ [((n, i, 0), a)]\<rparr>"
    have old: "\<forall>entry \<in> set (edges g). \<not> same_edge (directed g) (fst entry) (i, n, snd (snd (fst entry)))"
      by (rule isolated_no_edge[OF iso]) simp
    have "\<forall>entry \<in> set (edges ?g). \<not> same_edge (directed ?g) (fst entry) (i, n, snd (snd (fst entry)))"
      using old ne d by simp
    moreover have "i \<in> set (node_names ?g)" "n \<in> set (node_names ?g)"
      using n i by (simp_all add: node_names_def)
    ultimately have "add_edge ?g i n b = ?g\<lparr>edges := edges ?g @ [((i, n, 0), b)]\<rparr>"
      by (rule add_edge_new[rotated 2])
    then show ?thesis by simp
  qed
  show ?thesis
  proof (cases "directed g")
    case True
    then show ?thesis
      using cn ci a3[OF True] by (simp add: connect_node_def link_edges_def a1 a2 Let_def)
  next
    case False
    then show ?thesis
      using cn ci by (simp add: connect_node_def link_edges_def a1 Let_def)
  qed
qed


lemma node_point_old:
  "m \<in> set (node_names g) \<Longrightarrow> node_point (g\<lparr>nodes := nodes g @ [(n, a)]\<rparr>) m = node_point g m"
proof -
  assume "m \<in> set (node_names g)"
  then have "map_of (nodes g) m \<noteq> None"
    by (simp add: node_names_def map_of_eq_None_iff)
  then have "map_of (nodes g @ [(n, a)]) m = map_of (nodes g) m"
    by (auto simp: map_add_def split: option.splits)
  then show ?thesis by (simp add: node_point_def cong: option.case_cong)
qed

lemma node_point_new:
  "n \<notin> set (node_names g) \<Longrightarrow>
   node_point (g\<lparr>nodes := nodes g @ [(n, a(x_key g \<mapsto> Num px, y_key g \<mapsto> Num py))]\<rparr>) n
     = Inr (if x_key g = y_key g then py else px, py)"
proof -
  assume "n \<notin> set (node_names g)"
  then have "map_of (nodes g) n = None"
    by (simp add: node_names_def map_of_eq_None_iff)
  then show ?thesis
    by (simp add: node_point_def map_add_def)
qed

lemma closed_isolated:
  "edges_closed g \<Longrightarrow> n \<notin> set (node_names g) \<Longrightarrow>
   \<forall>entry \<in> set (edges g). fst (fst entry) \<noteq> n \<and> fst (snd (fst entry)) \<noteq> n"
  by (auto simp: edges_closed_def)

section \<open>The loop body of the point placement\<close>

lemma place_point_interior:
  fixes env :: "('r::{linorder,zero}) env" and g :: "'r geograph" and p_index :: node
    and point :: "'r coord" and cols :: "'r attrs" and line :: "'r line"
  assumes U: "unique_names env" and C: "edges_closed g"
    and idx: "p < length idxs" "idxs ! p < length eal" "eal ! (idxs ! p) = (e, Geom line)"
    and int: "0 < project env line point" "project env line point < line_length env line"
  defines "n \<equiv> get_new_node_unique_name env g p_index"
  defines "info \<equiv> cols(x_key g \<mapsto> Num (fst point), y_key g \<mapsto> Num (snd point))"
  defines "d \<equiv> project env line point"
  defines "i \<equiv> get_new_node_unique_name env (g\<lparr>nodes := nodes g @ [(n, info)]\<rparr>) (INTERSECTION_PREFIX env @ p_index)"
  defines "iinfo \<equiv> [x_key g \<mapsto> Num (fst (interpolate env line d)), y_key g \<mapsto> Num (snd (interpolate env line d))]"
  shows "place_point env md eal idxs (g, ets) (p, p_index, point, cols) =
     ((g\<lparr>nodes := nodes g @ [(n, info), (i, iinfo)],
         edges := edges g @ link_edges g md n i
            (if x_key g = y_key g then snd point else fst point, snd point)
            (if x_key g = y_key g then snd (interpolate env line d) else fst (interpolate env line d),
             snd (interpolate env line d))\<rparr>,
       record_split ets e i d), None)"
proof -
  let ?g1 = "g\<lparr>nodes := nodes g @ [(n, info)]\<rparr>"
  let ?g2 = "g\<lparr>nodes := nodes g @ [(n, info), (i, iinfo)]\<rparr>"
  have n: "n \<notin> set (node_names g)" using U by (simp add: unique_names_def n_def)
  have i: "i \<notin> set (node_names ?g1)" using U by (simp add: unique_names_def i_def)
  then have ne: "n \<noteq> i" by (auto simp: node_names_def)
  have g1: "add_node g n info = ?g1" by (rule add_node_new[OF n])
  have g2: "add_node ?g1 i iinfo = ?g2" using add_node_new[OF i, of iinfo] by simp
  have n1: "node_point ?g1 n = Inr (if x_key g = y_key g then snd point else fst point, snd point)"
    unfolding info_def by (rule node_point_new[OF n])
  have "n \<in> set (node_names ?g1)" by (simp add: node_names_def)
  then have cn: "get_node_coordinates ?g2 n = Inr (if x_key g = y_key g then snd point else fst point, snd point)"
    using n1 node_point_old[of n ?g1 i iinfo] by (simp add: get_node_coordinates_def)
  have ci: "get_node_coordinates ?g2 i =
      Inr (if x_key g = y_key g then snd (interpolate env line d) else fst (interpolate env line d),
           snd (interpolate env line d))"
    using node_point_new[OF i, of Map.empty] by (simp add: get_node_coordinates_def iinfo_def)
  have iso: "\<forall>entry \<in> set (edges ?g2). fst (fst entry) \<noteq> n \<and> fst (snd (fst entry)) \<noteq> n"
    using closed_isolated[OF C n] by simp
  have conn: "connect_node ?g2 md n i = (?g2\<lparr>edges := edges ?g2 @ link_edges ?g2 md n i
            (if x_key g = y_key g then snd point else fst point, snd point)
            (if x_key g = y_key g then snd (interpolate env line d) else fst (interpolate env line d),
             snd (interpolate env line d))\<rparr>, None)"
    by (rule connect_node_new[OF cn ci ne iso])
  have link: "link_edges ?g2 md n i a b = link_edges g md n i a b" for a b
    by (simp add: link_edges_def)
  have loc: "locate_intersection env ?g1 ets p_index point e line =
      ((?g2, record_split ets e i d), Inr i)"
    using int g2 by (simp add: locate_intersection_def Let_def d_def i_def iinfo_def)
  show ?thesis
    using idx
    by (simp add: place_point_def Let_def n_def[symmetric] info_def[symmetric] g1 loc conn link)
qed


lemma place_point_snap:
  fixes env :: "('r::{linorder,zero}) env" and g :: "'r geograph" and p_index :: node
    and point :: "'r coord" and cols :: "'r attrs" and line :: "'r line"
  assumes U: "unique_names env" and C: "edges_closed g"
    and idx: "p < length idxs" "idxs ! p < length eal" "eal ! (idxs ! p) = ((u, v, k), Geom line)"
    and nint: "\<not> (0 < project env line point \<and> project env line point < line_length env line)"
    and pu: "node_point g u = Inr pu" and pv: "node_point g v = Inr pv"
  defines "n \<equiv> get_new_node_unique_name env g p_index"
  defines "info \<equiv> cols(x_key g \<mapsto> Num (fst point), y_key g \<mapsto> Num (snd point))"
  defines "near \<equiv> euclidian_distance env point pu < euclidian_distance env point pv"
  shows "place_point env md eal idxs (g, ets) (p, p_index, point, cols) =
     ((g\<lparr>nodes := nodes g @ [(n, info)],
         edges := edges g @ link_edges g md n (if near then u else v)
            (if x_key g = y_key g then snd point else fst point, snd point)
            (if near then pu else pv)\<rparr>,
       ets), None)"
proof -
  let ?g1 = "g\<lparr>nodes := nodes g @ [(n, info)]\<rparr>"
  let ?i = "if near then u else v"
  have n: "n \<notin> set (node_names g)" using U by (simp add: unique_names_def n_def)
  have u: "u \<in> set (node_names g)" and v: "v \<in> set (node_names g)"
    using pu pv by (auto dest: node_point_known)
  have g1: "add_node g n info = ?g1" by (rule add_node_new[OF n])
  have pu1: "node_point ?g1 u = Inr pu" and pv1: "node_point ?g1 v = Inr pv"
    using pu pv u v by (simp_all add: node_point_old)
  have cn: "get_node_coordinates ?g1 n = Inr (if x_key g = y_key g then snd point else fst point, snd point)"
    unfolding info_def get_node_coordinates_def by (rule node_point_new[OF n])
  have ci: "get_node_coordinates ?g1 ?i = Inr (if near then pu else pv)"
    using pu1 pv1 by (simp add: get_node_coordinates_def)
  have ne: "n \<noteq> ?i" using n u v by auto
  have iso: "\<forall>entry \<in> set (edges ?g1). fst (fst entry) \<noteq> n \<and> fst (snd (fst entry)) \<noteq> n"
    using closed_isolated[OF C n] by simp
  have conn: "connect_node ?g1 md n ?i = (?g1\<lparr>edges := edges ?g1 @ link_edges ?g1 md n ?i
            (if x_key g = y_key g then snd point else fst point, snd point)
            (if near then pu else pv)\<rparr>, None)"
    by (rule connect_node_new[OF cn ci ne iso])
  have link: "link_edges ?g1 md n j a b = link_edges g md n j a b" for a b j
    by (simp add: link_edges_def)
  have nint': "(0 < project env line point \<and> project env line point < line_length env line) = False"
    using nint by blast
  have loc: "locate_intersection env ?g1 ets p_index point (u, v, k) line = ((?g1, ets), Inr ?i)"
    unfolding locate_intersection_def Let_def nint' using pu1 pv1 by (simp add: near_def)
  show ?thesis
    using idx conn
    by (simp add: place_point_def Let_def n_def[symmetric] info_def[symmetric] g1 loc link)
qed

lemma place_point_cases:
  fixes env :: "('r::{linorder,zero}) env" and g :: "'r geograph"
  assumes U: "unique_names env" and K: "lines_known g eal"
    and step: "place_point env md eal idxs (g, ets) (p, p_index, point, cols) = ((g', ets'), None)"
  obtains (interior) e line where
      "p < length idxs" "idxs ! p < length eal" "eal ! (idxs ! p) = (e, Geom line)"
      "0 < project env line point" "project env line point < line_length env line"
    | (snap) u v k line pu pv where
      "p < length idxs" "idxs ! p < length eal" "eal ! (idxs ! p) = ((u, v, k), Geom line)"
      "\<not> (0 < project env line point \<and> project env line point < line_length env line)"
      "node_point g u = Inr pu" "node_point g v = Inr pv"
proof -
  let ?n = "get_new_node_unique_name env g p_index"
  let ?info = "cols(x_key g \<mapsto> Num (fst point), y_key g \<mapsto> Num (snd point))"
  let ?g1 = "g\<lparr>nodes := nodes g @ [(?n, ?info)]\<rparr>"
  have n: "?n \<notin> set (node_names g)" using U by (simp add: unique_names_def)
  have g1: "add_node g ?n ?info = ?g1" by (rule add_node_new[OF n])
  have p: "p < length idxs"
    using step by (auto simp: place_point_def Let_def split: if_splits)
  have l: "idxs ! p < length eal"
    using step p by (auto simp: place_point_def Let_def split: if_splits)
  obtain u v k x where e: "eal ! (idxs ! p) = ((u, v, k), x)"
    by (metis prod.collapse)
  obtain line where x: "x = Geom line"
    using step p l e by (cases x) (auto simp: place_point_def Let_def)
  have mem: "((u, v, k), x) \<in> set eal" using l e by (metis nth_mem)
  then have u: "u \<in> set (node_names g)" and v: "v \<in> set (node_names g)"
    using K by (auto simp: lines_known_def)
  show thesis
  proof (cases "0 < project env line point \<and> project env line point < line_length env line")
    case True
    then show thesis using interior[of "(u, v, k)" line] p l e x by simp
  next
    case False
    have loc: "snd (locate_intersection env ?g1 ets p_index point (u, v, k) line) \<noteq> Inl err" for err
      using step p l e x
      by (auto simp: place_point_def Let_def g1 split: prod.splits sum.splits)
    have F: "(0 < project env line point \<and> project env line point < line_length env line) = False"
      using False by blast
    obtain pu where pu: "node_point ?g1 u = Inr pu"
      using loc unfolding locate_intersection_def Let_def F
      by (cases "node_point ?g1 u") auto
    obtain pv where pv: "node_point ?g1 v = Inr pv"
      using loc pu unfolding locate_intersection_def Let_def F
      by (cases "node_point ?g1 v") auto
    have "node_point g u = Inr pu" "node_point g v = Inr pv"
      using pu pv u v by (simp_all add: node_point_old)
    then show thesis using snap[of u v k line pu pv] p l e x False by simp
  qed
qed

section \<open>The edges between a point and its intersection node\<close>

lemma node_point_edges [simp]: "node_point (g\<lparr>edges := es\<rparr>) m = node_point g m"
  by (simp add: node_point_def cong: option.case_cong)

lemma node_point_two_new:
  assumes n: "n \<notin> set (node_names g)" and i: "i \<notin> set (node_names g)" and ne: "n \<noteq> i"
  shows "node_point (g\<lparr>nodes := nodes g @ [(n, a(x_key g \<mapsto> Num px, y_key g \<mapsto> Num py)),
                                            (i, [x_key g \<mapsto> Num qx, y_key g \<mapsto> Num qy])]\<rparr>) n
           = Inr (if x_key g = y_key g then py else px, py)"
    and "node_point (g\<lparr>nodes := nodes g @ [(n, a(x_key g \<mapsto> Num px, y_key g \<mapsto> Num py)),
                                            (i, [x_key g \<mapsto> Num qx, y_key g \<mapsto> Num qy])]\<rparr>) i
           = Inr (if x_key g = y_key g then qy else qx, qy)"
proof -
  have "map_of (nodes g) n = None" "map_of (nodes g) i = None"
    using n i by (simp_all add: node_names_def map_of_eq_None_iff)
  then show "node_point (g\<lparr>nodes := nodes g @ [(n, a(x_key g \<mapsto> Num px, y_key g \<mapsto> Num py)),
                                            (i, [x_key g \<mapsto> Num qx, y_key g \<mapsto> Num qy])]\<rparr>) n
           = Inr (if x_key g = y_key g then py else px, py)"
    and "node_point (g\<lparr>nodes := nodes g @ [(n, a(x_key g \<mapsto> Num px, y_key g \<mapsto> Num py)),
                                            (i, [x_key g \<mapsto> Num qx, y_key g \<mapsto> Num qy])]\<rparr>) i
           = Inr (if x_key g = y_key g then qy else qx, qy)"
    using ne by (simp_all add: node_point_def map_add_def)
qed


lemma connect_node_out:
  assumes "md \<noteq> ''both''" "md \<noteq> ''in''"
  shows "connect_node g md n i = connect_node g ''out'' n i"
  using assms
  by (cases "get_node_coordinates g n"; cases "get_node_coordinates g i")
     (simp_all add: connect_node_def Let_def)

lemma place_point_out:
  assumes "md \<noteq> ''both''" "md \<noteq> ''in''"
  shows "place_point env md eal idxs st row = place_point env ''out'' eal idxs st row"
proof -
  have "connect_node g md = connect_node g ''out''" for g :: "'a geograph"
    using connect_node_out[OF assms] by (intro ext)
  then show ?thesis unfolding place_point_def by (simp only:)
qed

lemma place_points_out:
  "md \<noteq> ''both'' \<Longrightarrow> md \<noteq> ''in'' \<Longrightarrow>
   place_points env md eal idxs st rows = place_points env ''out'' eal idxs st rows"
  by (induction rows arbitrary: st) (simp_all add: place_point_out[of md])

lemma place_point_links:
  fixes env :: "('r::{linorder,zero}) env" and g :: "'r geograph"
  assumes U: "unique_names env" and C: "edges_closed g" and K: "lines_known g eal"
    and step: "place_point env md eal idxs (g, ets) (p, p_index, point, cols) = ((g', ets'), None)"
  shows "\<exists>i cn ci. i \<noteq> get_new_node_unique_name env g p_index
           \<and> node_point g' (get_new_node_unique_name env g p_index) = Inr cn
           \<and> node_point g' i = Inr ci
           \<and> edges g' = edges g @ link_edges g md (get_new_node_unique_name env g p_index) i cn ci"
proof -
  let ?n = "get_new_node_unique_name env g p_index"
  let ?info = "cols(x_key g \<mapsto> Num (fst point), y_key g \<mapsto> Num (snd point))"
  let ?cn = "(if x_key g = y_key g then snd point else fst point, snd point)"
  have n: "?n \<notin> set (node_names g)" using U by (simp add: unique_names_def)
  from U K step show ?thesis
  proof (cases rule: place_point_cases)
    case (interior e line)
    let ?d = "project env line point"
    let ?i = "get_new_node_unique_name env (g\<lparr>nodes := nodes g @ [(?n, ?info)]\<rparr>)
                (INTERSECTION_PREFIX env @ p_index)"
    let ?ci = "(if x_key g = y_key g then snd (interpolate env line ?d)
                else fst (interpolate env line ?d), snd (interpolate env line ?d))"
    have "?i \<notin> set (node_names (g\<lparr>nodes := nodes g @ [(?n, ?info)]\<rparr>))"
      using U unfolding unique_names_def by blast
    then have i: "?i \<notin> set (node_names g)" and ne: "?n \<noteq> ?i"
      by (auto simp: node_names_def)
    have g': "g' = g\<lparr>nodes := nodes g @ [(?n, ?info), (?i,
                  [x_key g \<mapsto> Num (fst (interpolate env line ?d)),
                   y_key g \<mapsto> Num (snd (interpolate env line ?d))])],
                edges := edges g @ link_edges g md ?n ?i ?cn ?ci\<rparr>"
      using step place_point_interior[OF U C interior, where p_index=p_index and cols=cols and md=md and ets=ets] by simp
    have "node_point g' ?n = Inr ?cn" "node_point g' ?i = Inr ?ci"
      unfolding g' using node_point_two_new[OF n i ne] by simp_all
    moreover have "edges g' = edges g @ link_edges g md ?n ?i ?cn ?ci"
      unfolding g' by simp
    moreover have "?i \<noteq> ?n" using ne by simp
    ultimately show ?thesis
      by (intro exI[of _ ?i] exI[of _ ?cn] exI[of _ ?ci] conjI)
  next
    case (snap u v k line pu pv)
    let ?near = "euclidian_distance env point pu < euclidian_distance env point pv"
    let ?i = "if ?near then u else v"
    let ?ci = "if ?near then pu else pv"
    have u: "u \<in> set (node_names g)" and v: "v \<in> set (node_names g)"
      using snap(5,6) by (auto dest: node_point_known)
    have g': "g' = g\<lparr>nodes := nodes g @ [(?n, ?info)],
                edges := edges g @ link_edges g md ?n ?i ?cn ?ci\<rparr>"
      using step place_point_snap[OF U C snap, where p_index=p_index and cols=cols and md=md and ets=ets] by simp
    have "node_point g' ?n = Inr ?cn"
      unfolding g' using node_point_new[OF n] by simp
    moreover have "node_point g' ?i = Inr ?ci"
      unfolding g' using u v snap(5,6) by (simp add: node_point_old)
    moreover have "edges g' = edges g @ link_edges g md ?n ?i ?cn ?ci"
      unfolding g' by simp
    moreover have "?i \<noteq> ?n" using n u v by auto
    ultimately show ?thesis
      by (intro exI[of _ ?i] exI[of _ ?cn] exI[of _ ?ci] conjI)
  qed
qed

lemma padded_name_fresh: "padded_name g n \<notin> set (node_names g)"
proof (cases "n \<in> set (node_names g)")
  case False
  then show ?thesis by (simp add: padded_name_def)
next
  case True
  let ?m = "Max (insert 0 (length ` set (node_names g)))"
  have le: "length x \<le> ?m" if "x \<in> set (node_names g)" for x
    using that by (intro Max_ge) auto
  have "length x < length (n @ replicate (Suc ?m) (CHR ''_''))"
    if "x \<in> set (node_names g)" for x
    using le[OF that] by simp
  then have "n @ replicate (Suc ?m) (CHR ''_'') \<notin> set (node_names g)" by blast
  with True show ?thesis by (simp add: padded_name_def)
qed

lemma unique_names_grid_env: "unique_names grid_env"
  by (simp add: unique_names_def grid_env_def padded_name_fresh)

lemmas placement_defs =
  place_point_def locate_intersection_def connect_node_def get_node_coordinates_def
  node_point_def add_node_def add_edge_def add_edge_key_def ensure_node_def find_edge_def
  has_node_def node_names_def record_split_def grid_env_def grid_project_def padded_name_def
  Let_def

lemma road_closed: "edges_closed road" "edges_closed one_way"
  by (simp_all add: edges_closed_def road_def one_way_def node_names_def)

lemma road_lines_known: "lines_known road road_lines" "lines_known one_way road_lines"
  by (simp_all add: lines_known_def road_def one_way_def road_lines_def node_names_def)


text \<open>
  C5. For a merged point, with \<open>n\<close> its new node and \<open>i\<close> its intersection node: an
  undirected graph gets the one edge \<open>n\<close>, \<open>i\<close> whatever \<open>merge_direction\<close> is; a directed
  graph gets \<open>n \<rightarrow> i\<close> and \<open>i \<rightarrow> n\<close> for \<open>both\<close>, only \<open>n \<rightarrow> i\<close> for \<open>in\<close>, only
  \<open>i \<rightarrow> n\<close> for \<open>out\<close>. The geometry of each added edge is the segment between the
  coordinates of its two nodes, and no other edge changes.
\<close>

theorem merge_direction_policy:
  fixes env :: "('r::{linorder,zero}) env" and g :: "'r geograph"
  assumes "unique_names env" and "edges_closed g" and "lines_known g eal"
    and "place_point env md eal idxs (g, ets) (p, p_index, point, cols) = ((g', ets'), None)"
  shows "\<exists>n i cn ci.
           n = get_new_node_unique_name env g p_index \<and> i \<noteq> n
           \<and> node_point g' n = Inr cn \<and> node_point g' i = Inr ci
           \<and> (\<not> directed g \<longrightarrow>
                 edges g' = edges g @ [((n, i, 0), [edges_geometry_key g \<mapsto> Geom [cn, ci]])])
           \<and> (directed g \<and> md = ''both'' \<longrightarrow>
                 edges g' = edges g @ [((n, i, 0), [edges_geometry_key g \<mapsto> Geom [cn, ci]]),
                                       ((i, n, 0), [edges_geometry_key g \<mapsto> Geom [ci, cn]])])
           \<and> (directed g \<and> md = ''in'' \<longrightarrow>
                 edges g' = edges g @ [((n, i, 0), [edges_geometry_key g \<mapsto> Geom [cn, ci]])])
           \<and> (directed g \<and> md = ''out'' \<longrightarrow>
                 edges g' = edges g @ [((i, n, 0), [edges_geometry_key g \<mapsto> Geom [ci, cn]])])"
proof -
  from place_point_links[OF assms] obtain i cn ci where
    "i \<noteq> get_new_node_unique_name env g p_index"
    "node_point g' (get_new_node_unique_name env g p_index) = Inr cn"
    "node_point g' i = Inr ci"
    "edges g' = edges g @ link_edges g md (get_new_node_unique_name env g p_index) i cn ci"
    by blast
  then show ?thesis
    by (intro exI[of _ "get_new_node_unique_name env g p_index"] exI[of _ i]
          exI[of _ cn] exI[of _ ci]) (simp add: link_edges_def)
qed

theorem merge_direction_policy_witness:
  "unique_names grid_env \<and> edges_closed one_way \<and> lines_known one_way road_lines
   \<and> place_point grid_env ''in'' road_lines [0] (one_way, []) (0, ''P'', (5, 1), Map.empty) =
       ((one_way\<lparr>nodes := nodes one_way @ [(''P'', [''x'' \<mapsto> Num 5, ''y'' \<mapsto> Num 1]),
                                            (''i_P'', [''x'' \<mapsto> Num 5, ''y'' \<mapsto> Num 0])],
                 edges := edges one_way @
                   [((''P'', ''i_P'', 0), [''geometry'' \<mapsto> Geom [(5, 1), (5, 0)]])]\<rparr>,
         [((''A'', ''B'', 0), [(''i_P'', 5)])]), None)
   \<and> (\<exists>n i cn ci.
         edges (one_way\<lparr>nodes := nodes one_way @ [(''P'', [''x'' \<mapsto> Num 5, ''y'' \<mapsto> Num 1]),
                                            (''i_P'', [''x'' \<mapsto> Num 5, ''y'' \<mapsto> Num 0])],
                 edges := edges one_way @
                   [((''P'', ''i_P'', 0), [''geometry'' \<mapsto> Geom [(5, 1), (5, 0)]])]\<rparr>)
           = edges one_way @ [((n, i, 0), [edges_geometry_key one_way \<mapsto> Geom [cn, ci]])])"
proof -
  have step: "place_point grid_env ''in'' road_lines [0] (one_way, []) (0, ''P'', (5, 1), Map.empty) =
       ((one_way\<lparr>nodes := nodes one_way @ [(''P'', [''x'' \<mapsto> Num 5, ''y'' \<mapsto> Num 1]),
                                            (''i_P'', [''x'' \<mapsto> Num 5, ''y'' \<mapsto> Num 0])],
                 edges := edges one_way @
                   [((''P'', ''i_P'', 0), [''geometry'' \<mapsto> Geom [(5, 1), (5, 0)]])]\<rparr>,
         [((''A'', ''B'', 0), [(''i_P'', 5)])]), None)"
    by (simp add: placement_defs road_def one_way_def road_lines_def)
  have d: "directed one_way" by (simp add: one_way_def)
  from merge_direction_policy[OF unique_names_grid_env road_closed(2) road_lines_known(2) step] d
  have "\<exists>n i cn ci.
         edges (one_way\<lparr>nodes := nodes one_way @ [(''P'', [''x'' \<mapsto> Num 5, ''y'' \<mapsto> Num 1]),
                                            (''i_P'', [''x'' \<mapsto> Num 5, ''y'' \<mapsto> Num 0])],
                 edges := edges one_way @
                   [((''P'', ''i_P'', 0), [''geometry'' \<mapsto> Geom [(5, 1), (5, 0)]])]\<rparr>)
           = edges one_way @ [((n, i, 0), [edges_geometry_key one_way \<mapsto> Geom [cn, ci]])]"
    by fast
  with step unique_names_grid_env road_closed(2) road_lines_known(2) show ?thesis by blast
qed

section \<open>Exceptions of the points merge, and unknown merge directions\<close>

lemma node_point_error: "node_point g n = Inl err \<Longrightarrow> err = KeyError \<or> err = GeometryError"
  by (auto simp: node_point_def split: option.splits val.splits)

lemma connect_node_error:
  "connect_node g md n i = (g', Some err) \<Longrightarrow> err = KeyError \<or> err = GeometryError"
  by (cases "get_node_coordinates g n"; cases "get_node_coordinates g i")
     (auto simp: connect_node_def get_node_coordinates_def Let_def
           dest: node_point_error split: if_splits)

lemma locate_intersection_error:
  "locate_intersection env g ets p_index point e line = (st, Inl err)
   \<Longrightarrow> err = KeyError \<or> err = GeometryError"
  by (cases "node_point g (fst e)"; cases "node_point g (fst (snd e))")
     (auto simp: locate_intersection_def Let_def dest: node_point_error split: if_splits)

lemma place_point_error:
  assumes "place_point env md eal idxs st row = (st', Some err)"
  shows "\<forall>m. err \<noteq> ValueError m"
proof -
  obtain g ets where st: "st = (g, ets)" by (cases st)
  obtain p p_index point cols where row: "row = (p, p_index, point, cols)"
    by (metis prod.collapse)
  let ?n = "get_new_node_unique_name env g p_index"
  let ?g1 = "add_node g ?n (cols(x_key g \<mapsto> Num (fst point), y_key g \<mapsto> Num (snd point)))"
  show ?thesis
  proof (cases "length idxs \<le> p \<or> length eal \<le> idxs ! p")
    case True
    with assms show ?thesis by (auto simp: place_point_def st row Let_def split: if_splits)
  next
    case False
    obtain e x where e: "eal ! (idxs ! p) = (e, x)" by (cases "eal ! (idxs ! p)")
    show ?thesis
    proof (cases x)
      case (Geom line)
      obtain st2 r where loc: "locate_intersection env ?g1 ets p_index point e line = (st2, r)"
        by (cases "locate_intersection env ?g1 ets p_index point e line")
      show ?thesis
      proof (cases r)
        case (Inl err')
        with assms False e Geom loc have "err = err'"
          by (simp add: place_point_def st row Let_def)
        with locate_intersection_error[of env ?g1 ets p_index point e line st2 err'] loc Inl
        show ?thesis by auto
      next
        case (Inr i)
        obtain g2 ets2 where st2: "st2 = (g2, ets2)" by (cases st2)
        obtain g3 r3 where conn: "connect_node g2 md ?n i = (g3, r3)"
          by (cases "connect_node g2 md ?n i")
        with assms False e Geom loc Inr st2 have "r3 = Some err"
          by (simp add: place_point_def st row Let_def)
        with connect_node_error[of g2 md ?n i g3 err] conn show ?thesis by auto
      qed
    qed (use assms False e in \<open>auto simp: place_point_def st row Let_def\<close>)
  qed
qed

lemma place_points_error:
  "place_points env md eal idxs st rows = (st', Some err) \<Longrightarrow> \<forall>m. err \<noteq> ValueError m"
proof (induction rows arbitrary: st)
  case Nil
  then show ?case by simp
next
  case (Cons row rows)
  obtain st1 r where s: "place_point env md eal idxs st row = (st1, r)"
    by (cases "place_point env md eal idxs st row")
  show ?case
  proof (cases r)
    case None
    with Cons s show ?thesis by simp
  next
    case (Some e)
    with Cons.prems s have "e = err" by simp
    with place_point_error[of env md eal idxs st row st1 e] s Some show ?thesis by simp
  qed
qed

lemma split_edge_error:
  "split_edge env eal g entry = (g', Some err) \<Longrightarrow> err = KeyError \<or> err = GeometryError"
  by (cases entry) (auto simp: split_edge_def Let_def split: if_splits option.splits val.splits)

lemma split_edges_error:
  "split_edges env eal g ets = (g', Some err) \<Longrightarrow> err = KeyError \<or> err = GeometryError"
proof (induction ets arbitrary: g)
  case Nil
  then show ?case by simp
next
  case (Cons entry ets)
  obtain g1 r where s: "split_edge env eal g entry = (g1, r)"
    by (cases "split_edge env eal g entry")
  show ?case
  proof (cases r)
    case None
    with Cons s show ?thesis by simp
  next
    case (Some e)
    with Cons.prems s have "e = err" by simp
    with split_edge_error[of env eal g entry g1 e] s Some show ?thesis by simp
  qed
qed

lemma merge_points_into_error:
  assumes "merge_points_into env g points_gdf md = (g', Some err)"
  shows "(\<exists>cs ls. get_closest_line_from_points env cs ls = Inl err) \<or> (\<forall>m. err \<noteq> ValueError m)"
proof -
  let ?eal = "get_edge_attributes g (edges_geometry_key g)"
  let ?cs = "map (\<lambda>(p_index, point, cols). point) points_gdf"
  show ?thesis
  proof (cases "get_closest_line_from_points env ?cs (map snd ?eal)")
    case (Inl e)
    with assms have "e = err" by (simp add: merge_points_into_def Let_def)
    with Inl show ?thesis by blast
  next
    case (Inr idxs)
    obtain g1 ets r where p: "place_points env md ?eal idxs (g, [])
        (zip [0..<length points_gdf] points_gdf) = ((g1, ets), r)"
      by (metis prod.collapse)
    show ?thesis
    proof (cases r)
      case None
      with assms p Inr have "split_edges env ?eal g1 ets = (g', Some err)"
        by (simp add: merge_points_into_def Let_def)
      from split_edges_error[OF this] show ?thesis by auto
    next
      case (Some e)
      with assms p Inr have "e = err" by (simp add: merge_points_into_def Let_def)
      with place_points_error[of env md ?eal idxs "(g, [])" _ "(g1, ets)" e] p Some
      show ?thesis by simp
    qed
  qed
qed

lemma spatial_points_merge_error:
  assumes "snd (spatial_points_merge env h graph points_gdf inplace md) = Inl err"
  shows "(\<exists>cs ls. get_closest_line_from_points env cs ls = Inl err) \<or> (\<forall>m. err \<noteq> ValueError m)"
proof -
  obtain h1 r where c: "(if \<not> inplace then copy_graph h graph else (h, graph)) = (h1, r)"
    by (cases "if \<not> inplace then copy_graph h graph else (h, graph)")
  obtain g' e where m: "merge_points_into env (objs h1 r) points_gdf md = (g', e)"
    by (cases "merge_points_into env (objs h1 r) points_gdf md")
  from assms have "e = Some err"
    unfolding spatial_points_merge_def c using m by (cases e) (auto split: if_splits)
  with merge_points_into_error[of env "objs h1 r" points_gdf md g' err] m show ?thesis by blast
qed

lemma merge_points_into_out:
  assumes "md \<noteq> ''both''" "md \<noteq> ''in''"
  shows "merge_points_into env g points_gdf md = merge_points_into env g points_gdf ''out''"
proof -
  have "place_points env md = place_points env ''out''"
    using place_points_out[OF assms] by (intro ext)
  then show ?thesis unfolding merge_points_into_def by (simp only:)
qed

lemma spatial_points_merge_out:
  "md \<noteq> ''both'' \<Longrightarrow> md \<noteq> ''in'' \<Longrightarrow>
   spatial_points_merge env h graph points_gdf inplace md
     = spatial_points_merge env h graph points_gdf inplace ''out''"
  by (simp add: spatial_points_merge_def merge_points_into_out[of md])

text \<open>
  C10. A \<open>merge_direction\<close> that is neither \<open>both\<close> nor \<open>in\<close>, documented or not, is
  handled as \<open>out\<close>: the whole points merge does and returns what it does and returns for
  \<open>out\<close>, so that it raises nothing that \<open>out\<close> does not raise, and on a directed graph
  every placed point \<open>n\<close> gets the one edge from its intersection node \<open>i\<close> to \<open>n\<close>.
\<close>

theorem other_direction_is_out:
  fixes env :: "('r::{linorder,zero,minus}) env" and g :: "'r geograph"
  assumes "md \<noteq> ''both''" and "md \<noteq> ''in''"
  shows "spatial_points_merge env h graph points_gdf inplace md
           = spatial_points_merge env h graph points_gdf inplace ''out''
         \<and> (unique_names env \<and> edges_closed g \<and> lines_known g eal \<and> directed g
              \<and> place_point env md eal idxs (g, ets) (p, p_index, point, cols) = ((g', ets'), None)
            \<longrightarrow> (\<exists>n i cn ci.
                   n = get_new_node_unique_name env g p_index \<and> i \<noteq> n
                   \<and> node_point g' n = Inr cn \<and> node_point g' i = Inr ci
                   \<and> edges g' = edges g @ [((i, n, 0), [edges_geometry_key g \<mapsto> Geom [ci, cn]])]))"
proof (intro conjI impI)
  show "spatial_points_merge env h graph points_gdf inplace md
          = spatial_points_merge env h graph points_gdf inplace ''out''"
    using assms by (rule spatial_points_merge_out)
next
  assume a: "unique_names env \<and> edges_closed g \<and> lines_known g eal \<and> directed g
      \<and> place_point env md eal idxs (g, ets) (p, p_index, point, cols) = ((g', ets'), None)"
  then have U: "unique_names env" and C: "edges_closed g" and K: "lines_known g eal"
    and D: "directed g"
    and S: "place_point env md eal idxs (g, ets) (p, p_index, point, cols) = ((g', ets'), None)"
    by simp_all
  from place_point_links[OF U C K S] obtain i cn ci where
    "i \<noteq> get_new_node_unique_name env g p_index"
    "node_point g' (get_new_node_unique_name env g p_index) = Inr cn"
    "node_point g' i = Inr ci"
    "edges g' = edges g @ link_edges g md (get_new_node_unique_name env g p_index) i cn ci"
    by blast
  then show "\<exists>n i cn ci.
      n = get_new_node_unique_name env g p_index \<and> i \<noteq> n
      \<and> node_point g' n = Inr cn \<and> node_point g' i = Inr ci
      \<and> edges g' = edges g @ [((i, n, 0), [edges_geometry_key g \<mapsto> Geom [ci, cn]])]"
    using assms D
    by (intro exI[of _ "get_new_node_unique_name env g p_index"] exI[of _ i]
          exI[of _ cn] exI[of _ ci]) (simp add: link_edges_def)
qed

theorem other_direction_is_out_witness:
  "''sideways'' \<noteq> ''both'' \<and> ''sideways'' \<noteq> ''in''
   \<and> unique_names grid_env \<and> edges_closed one_way \<and> lines_known one_way road_lines
   \<and> directed one_way
   \<and> place_point grid_env ''sideways'' road_lines [0] (one_way, []) (0, ''P'', (-1, 0), Map.empty) =
       ((one_way\<lparr>nodes := nodes one_way @ [(''P'', [''x'' \<mapsto> Num (-1), ''y'' \<mapsto> Num 0])],
                 edges := edges one_way @
                   [((''A'', ''P'', 0), [''geometry'' \<mapsto> Geom [(0, 0), (-1, 0)]])]\<rparr>,
         []), None)
   \<and> spatial_points_merge grid_env one_way_heap 0 [(''P'', (-1, 0), Map.empty)] True ''sideways''
       = spatial_points_merge grid_env one_way_heap 0 [(''P'', (-1, 0), Map.empty)] True ''out''
   \<and> (\<exists>n i cn ci.
         edges (one_way\<lparr>nodes := nodes one_way @ [(''P'', [''x'' \<mapsto> Num (-1), ''y'' \<mapsto> Num 0])],
                 edges := edges one_way @
                   [((''A'', ''P'', 0), [''geometry'' \<mapsto> Geom [(0, 0), (-1, 0)]])]\<rparr>)
           = edges one_way @ [((i, n, 0), [edges_geometry_key one_way \<mapsto> Geom [ci, cn]])])"
proof -
  have ne: "''sideways'' \<noteq> ''both''" "''sideways'' \<noteq> ''in''" by simp_all
  have step: "place_point grid_env ''sideways'' road_lines [0] (one_way, [])
        (0, ''P'', (-1, 0), Map.empty) =
       ((one_way\<lparr>nodes := nodes one_way @ [(''P'', [''x'' \<mapsto> Num (-1), ''y'' \<mapsto> Num 0])],
                 edges := edges one_way @
                   [((''A'', ''P'', 0), [''geometry'' \<mapsto> Geom [(0, 0), (-1, 0)]])]\<rparr>,
         []), None)"
    by (simp add: placement_defs road_def one_way_def road_lines_def)
  have d: "directed one_way" by (simp add: one_way_def)
  note inst = other_direction_is_out[OF ne, of grid_env one_way_heap 0
      "[(''P'', (-1, 0), Map.empty)]" True one_way road_lines "[0]" "[]" 0 "''P''" "(-1, 0)" "Map.empty"]
  from inst have "spatial_points_merge grid_env one_way_heap 0 [(''P'', (-1, 0), Map.empty)] True ''sideways''
       = spatial_points_merge grid_env one_way_heap 0 [(''P'', (-1, 0), Map.empty)] True ''out''"
    by (rule conjunct1)
  moreover from inst step d unique_names_grid_env road_closed(2) road_lines_known(2)
  have "\<exists>n i cn ci.
         edges (one_way\<lparr>nodes := nodes one_way @ [(''P'', [''x'' \<mapsto> Num (-1), ''y'' \<mapsto> Num 0])],
                 edges := edges one_way @
                   [((''A'', ''P'', 0), [''geometry'' \<mapsto> Geom [(0, 0), (-1, 0)]])]\<rparr>)
           = edges one_way @ [((i, n, 0), [edges_geometry_key one_way \<mapsto> Geom [ci, cn]])]"
    by fast
  ultimately show ?thesis
    using ne step d unique_names_grid_env road_closed(2) road_lines_known(2) by blast
qed

section \<open>Interior projections and endpoint snaps\<close>

text \<open>
  C9. A point whose projection is not inside its closest line, and that is as far from
  the first node \<open>u\<close> of the edge as from its second node \<open>v\<close>, takes \<open>v\<close> as its
  intersection node: lines 61 to 71 return \<open>v\<close>, and the point is linked to \<open>v\<close>.
\<close>

theorem tie_snaps_to_second_node:
  fixes env :: "('r::{linorder,zero}) env" and g :: "'r geograph"
  assumes "unique_names env" and "edges_closed g"
    and "p < length idxs" and "idxs ! p < length eal"
    and "eal ! (idxs ! p) = ((u, v, k), Geom line)"
    and "\<not> (0 < project env line point \<and> project env line point < line_length env line)"
    and "node_point g u = Inr pu" and "node_point g v = Inr pv"
    and "euclidian_distance env point pu = euclidian_distance env point pv"
  shows "snd (locate_intersection env g ets p_index point (u, v, k) line) = Inr v
       \<and> place_point env md eal idxs (g, ets) (p, p_index, point, cols) =
          ((g\<lparr>nodes := nodes g @
                 [(get_new_node_unique_name env g p_index,
                   cols(x_key g \<mapsto> Num (fst point), y_key g \<mapsto> Num (snd point)))],
               edges := edges g @
                 link_edges g md (get_new_node_unique_name env g p_index) v
                   (if x_key g = y_key g then snd point else fst point, snd point) pv\<rparr>,
            ets), None)"
proof
  have F: "(0 < project env line point \<and> project env line point < line_length env line) = False"
    using assms(6) by blast
  show "snd (locate_intersection env g ets p_index point (u, v, k) line) = Inr v"
    unfolding locate_intersection_def Let_def F using assms(7,8,9) by simp
  show "place_point env md eal idxs (g, ets) (p, p_index, point, cols) =
          ((g\<lparr>nodes := nodes g @
                 [(get_new_node_unique_name env g p_index,
                   cols(x_key g \<mapsto> Num (fst point), y_key g \<mapsto> Num (snd point)))],
               edges := edges g @
                 link_edges g md (get_new_node_unique_name env g p_index) v
                   (if x_key g = y_key g then snd point else fst point, snd point) pv\<rparr>,
            ets), None)"
    using place_point_snap[OF assms(1-8), where p_index=p_index and cols=cols and md=md and ets=ets]
      assms(9) by simp
qed

theorem tie_snaps_to_second_node_witness:
  "unique_names grid_env \<and> edges_closed horseshoe
   \<and> (0::nat) < length [0::nat] \<and> [0::nat] ! 0 < length horseshoe_lines
   \<and> horseshoe_lines ! ([0] ! 0) = ((''A'', ''B'', 0), Geom [(0, 0), (5, 0), (5, 2), (0, 2)])
   \<and> \<not> (0 < project grid_env [(0, 0), (5, 0), (5, 2), (0, 2)] (-1, 1)
          \<and> project grid_env [(0, 0), (5, 0), (5, 2), (0, 2)] (-1, 1)
              < line_length grid_env [(0, 0), (5, 0), (5, 2), (0, 2)])
   \<and> node_point horseshoe ''A'' = Inr (0, 0) \<and> node_point horseshoe ''B'' = Inr (0, 2)
   \<and> euclidian_distance grid_env (-1, 1) (0, 0) = euclidian_distance grid_env (-1, 1) (0, 2)
   \<and> snd (locate_intersection grid_env horseshoe [] ''P'' (-1, 1) (''A'', ''B'', 0)
             [(0, 0), (5, 0), (5, 2), (0, 2)]) = Inr ''B''"
proof -
  have h: "(0::nat) < length [0::nat]" "[0::nat] ! 0 < length horseshoe_lines"
    "horseshoe_lines ! ([0] ! 0) = ((''A'', ''B'', 0), Geom [(0, 0), (5, 0), (5, 2), (0, 2)])"
    by (simp_all add: horseshoe_lines_def)
  have n: "\<not> (0 < project grid_env [(0, 0), (5, 0), (5, 2), (0, 2)] (-1, 1)
          \<and> project grid_env [(0, 0), (5, 0), (5, 2), (0, 2)] (-1, 1)
              < line_length grid_env [(0, 0), (5, 0), (5, 2), (0, 2)])"
    by (simp add: grid_env_def grid_project_def)
  have c: "edges_closed horseshoe"
    by (simp add: edges_closed_def horseshoe_def node_names_def)
  have pa: "node_point horseshoe ''A'' = Inr (0, 0)" and pb: "node_point horseshoe ''B'' = Inr (0, 2)"
    by (simp_all add: node_point_def horseshoe_def)
  have t: "euclidian_distance grid_env (-1, 1) (0, 0) = euclidian_distance grid_env (-1, 1) (0, 2)"
    by (simp add: grid_env_def)
  from tie_snaps_to_second_node[OF unique_names_grid_env c h n pa pb t,
      where ets="[]" and p_index="''P''"]
  have "snd (locate_intersection grid_env horseshoe [] ''P'' (-1, 1) (''A'', ''B'', 0)
             [(0, 0), (5, 0), (5, 2), (0, 2)]) = Inr ''B''"
    by (rule conjunct1)
  with unique_names_grid_env c h n pa pb t show ?thesis by blast
qed

text \<open>
  C4. For a placed point with closest edge \<open>(u, v, k)\<close> and projection distance \<open>d\<close> on
  its line. If \<open>0 < d < length\<close>: besides the node of the point, one new node, at the
  interpolated point, is added and the split of the edge at \<open>d\<close> by that node is
  recorded. Otherwise: only the node of the point is added, nothing is recorded, the
  point is linked to \<open>u\<close> if \<open>u\<close> is closer to it than \<open>v\<close> and to \<open>v\<close> if not. In both
  cases the edges of the graph stay as they are and the links are added after them.
\<close>

theorem projection_inside_or_snap:
  fixes env :: "('r::{linorder,zero}) env" and g :: "'r geograph"
  assumes "unique_names env" and "edges_closed g" and "lines_known g eal"
    and "p < length idxs" and "idxs ! p < length eal"
    and "eal ! (idxs ! p) = ((u, v, k), Geom line)"
    and "place_point env md eal idxs (g, ets) (p, p_index, point, cols) = ((g', ets'), None)"
  shows "(0 < project env line point \<and> project env line point < line_length env line \<longrightarrow>
            (\<exists>i. i \<notin> set (node_names g) \<and> i \<noteq> get_new_node_unique_name env g p_index
               \<and> nodes g' = nodes g @
                    [(get_new_node_unique_name env g p_index,
                      cols(x_key g \<mapsto> Num (fst point), y_key g \<mapsto> Num (snd point))),
                     (i, [x_key g \<mapsto> Num (fst (interpolate env line (project env line point))),
                          y_key g \<mapsto> Num (snd (interpolate env line (project env line point)))])]
               \<and> ets' = record_split ets (u, v, k) i (project env line point)
               \<and> (\<exists>cn ci. edges g' = edges g @
                     link_edges g md (get_new_node_unique_name env g p_index) i cn ci)))
       \<and> (\<not> (0 < project env line point \<and> project env line point < line_length env line) \<longrightarrow>
            (\<exists>pu pv. node_point g u = Inr pu \<and> node_point g v = Inr pv
               \<and> nodes g' = nodes g @
                    [(get_new_node_unique_name env g p_index,
                      cols(x_key g \<mapsto> Num (fst point), y_key g \<mapsto> Num (snd point)))]
               \<and> ets' = ets
               \<and> (\<exists>cn. edges g' = edges g @
                     link_edges g md (get_new_node_unique_name env g p_index)
                       (if euclidian_distance env point pu < euclidian_distance env point pv
                        then u else v)
                       cn
                       (if euclidian_distance env point pu < euclidian_distance env point pv
                        then pu else pv))))"
proof (intro conjI impI)
  let ?n = "get_new_node_unique_name env g p_index"
  let ?info = "cols(x_key g \<mapsto> Num (fst point), y_key g \<mapsto> Num (snd point))"
  assume int: "0 < project env line point \<and> project env line point < line_length env line"
  let ?i = "get_new_node_unique_name env (g\<lparr>nodes := nodes g @ [(?n, ?info)]\<rparr>)
              (INTERSECTION_PREFIX env @ p_index)"
  have "?i \<notin> set (node_names (g\<lparr>nodes := nodes g @ [(?n, ?info)]\<rparr>))"
    using assms(1) unfolding unique_names_def by blast
  then have i: "?i \<notin> set (node_names g)" "?i \<noteq> ?n"
    by (auto simp: node_names_def)
  from int have "0 < project env line point" "project env line point < line_length env line"
    by simp_all
  from place_point_interior[OF assms(1,2,4,5,6) this,
      where p_index=p_index and cols=cols and md=md and ets=ets] assms(7)
  have g': "g' = g\<lparr>nodes := nodes g @ [(?n, ?info),
           (?i, [x_key g \<mapsto> Num (fst (interpolate env line (project env line point))),
                 y_key g \<mapsto> Num (snd (interpolate env line (project env line point)))])],
         edges := edges g @ link_edges g md ?n ?i
            (if x_key g = y_key g then snd point else fst point, snd point)
            (if x_key g = y_key g then snd (interpolate env line (project env line point))
             else fst (interpolate env line (project env line point)),
             snd (interpolate env line (project env line point)))\<rparr>"
    and e': "ets' = record_split ets (u, v, k) ?i (project env line point)"
    by simp_all
  have "nodes g' = nodes g @ [(?n, ?info),
           (?i, [x_key g \<mapsto> Num (fst (interpolate env line (project env line point))),
                 y_key g \<mapsto> Num (snd (interpolate env line (project env line point)))])]"
    and "ets' = record_split ets (u, v, k) ?i (project env line point)"
    and "\<exists>cn ci. edges g' = edges g @ link_edges g md ?n ?i cn ci"
    unfolding g' e' by (simp, simp, (intro exI, simp))
  with i show "\<exists>i. i \<notin> set (node_names g) \<and> i \<noteq> ?n
       \<and> nodes g' = nodes g @ [(?n, ?info),
             (i, [x_key g \<mapsto> Num (fst (interpolate env line (project env line point))),
                  y_key g \<mapsto> Num (snd (interpolate env line (project env line point)))])]
       \<and> ets' = record_split ets (u, v, k) i (project env line point)
       \<and> (\<exists>cn ci. edges g' = edges g @ link_edges g md ?n i cn ci)"
    by (intro exI[of _ ?i] conjI)
next
  let ?n = "get_new_node_unique_name env g p_index"
  let ?info = "cols(x_key g \<mapsto> Num (fst point), y_key g \<mapsto> Num (snd point))"
  assume nint: "\<not> (0 < project env line point \<and> project env line point < line_length env line)"
  from assms(1,3,7) obtain pu pv where pu: "node_point g u = Inr pu" and pv: "node_point g v = Inr pv"
  proof (cases rule: place_point_cases)
    case (interior e line')
    with assms(6) nint show ?thesis by simp
  next
    case (snap u' v' k' line' pu pv)
    with assms(6) that show ?thesis by simp
  qed
  let ?near = "euclidian_distance env point pu < euclidian_distance env point pv"
  from place_point_snap[OF assms(1,2,4,5,6) nint pu pv,
      where p_index=p_index and cols=cols and md=md and ets=ets] assms(7)
  have g': "g' = g\<lparr>nodes := nodes g @ [(?n, ?info)],
         edges := edges g @ link_edges g md ?n (if ?near then u else v)
            (if x_key g = y_key g then snd point else fst point, snd point)
            (if ?near then pu else pv)\<rparr>"
    and e': "ets' = ets"
    by simp_all
  have "nodes g' = nodes g @ [(?n, ?info)]" and "ets' = ets"
    and "\<exists>cn. edges g' = edges g @ link_edges g md ?n (if ?near then u else v) cn
            (if ?near then pu else pv)"
    unfolding g' e' by (simp, simp, (intro exI, simp))
  with pu pv show "\<exists>pu pv. node_point g u = Inr pu \<and> node_point g v = Inr pv
       \<and> nodes g' = nodes g @ [(?n, ?info)] \<and> ets' = ets
       \<and> (\<exists>cn. edges g' = edges g @ link_edges g md ?n
              (if euclidian_distance env point pu < euclidian_distance env point pv then u else v)
              cn
              (if euclidian_distance env point pu < euclidian_distance env point pv then pu else pv))"
    by blast
qed

theorem projection_inside_or_snap_witness:
  "unique_names grid_env \<and> edges_closed road \<and> lines_known road road_lines
   \<and> (0::nat) < length [0::nat] \<and> [0::nat] ! 0 < length road_lines
   \<and> road_lines ! ([0] ! 0) = ((''A'', ''B'', 0), Geom [(0, 0), (10, 0)])
   \<and> place_point grid_env ''both'' road_lines [0] (road, []) (0, ''P'', (5, 1), Map.empty) =
       ((road\<lparr>nodes := nodes road @ [(''P'', [''x'' \<mapsto> Num 5, ''y'' \<mapsto> Num 1]),
                                      (''i_P'', [''x'' \<mapsto> Num 5, ''y'' \<mapsto> Num 0])],
              edges := edges road @
                [((''P'', ''i_P'', 0), [''geometry'' \<mapsto> Geom [(5, 1), (5, 0)]])]\<rparr>,
         [((''A'', ''B'', 0), [(''i_P'', 5)])]), None)
   \<and> 0 < project grid_env [(0, 0), (10, 0)] (5, 1)
   \<and> project grid_env [(0, 0), (10, 0)] (5, 1) < line_length grid_env [(0, 0), (10, 0)]
   \<and> (\<exists>i. i \<notin> set (node_names road)
          \<and> [((''A'', ''B'', 0), [(''i_P'', 5)])]
              = record_split [] (''A'', ''B'', 0) i (project grid_env [(0, 0), (10, 0)] (5, 1)))"
proof -
  have h: "(0::nat) < length [0::nat]" "[0::nat] ! 0 < length road_lines"
    "road_lines ! ([0] ! 0) = ((''A'', ''B'', 0), Geom [(0, 0), (10, 0)])"
    by (simp_all add: road_lines_def)
  have step: "place_point grid_env ''both'' road_lines [0] (road, []) (0, ''P'', (5, 1), Map.empty) =
       ((road\<lparr>nodes := nodes road @ [(''P'', [''x'' \<mapsto> Num 5, ''y'' \<mapsto> Num 1]),
                                      (''i_P'', [''x'' \<mapsto> Num 5, ''y'' \<mapsto> Num 0])],
              edges := edges road @
                [((''P'', ''i_P'', 0), [''geometry'' \<mapsto> Geom [(5, 1), (5, 0)]])]\<rparr>,
         [((''A'', ''B'', 0), [(''i_P'', 5)])]), None)"
    by (simp add: placement_defs road_def road_lines_def)
  have int: "0 < project grid_env [(0, 0), (10, 0)] (5, 1)"
    "project grid_env [(0, 0), (10, 0)] (5, 1) < line_length grid_env [(0, 0), (10, 0)]"
    by (simp_all add: grid_env_def grid_project_def)
  from projection_inside_or_snap[OF unique_names_grid_env road_closed(1) road_lines_known(1) h step]
    int
  have "\<exists>i. i \<notin> set (node_names road)
          \<and> [((''A'', ''B'', 0), [(''i_P'', 5)])]
              = record_split [] (''A'', ''B'', 0) i (project grid_env [(0, 0), (10, 0)] (5, 1))"
    by blast
  with unique_names_grid_env road_closed(1) road_lines_known(1) h step int show ?thesis
    by blast
qed

section \<open>The two entry points: objects, exceptions and the union\<close>

lemma node_rows_error: "node_rows g ns = Inl err \<Longrightarrow> err = KeyError \<or> err = GeometryError"
proof (induction ns)
  case Nil
  then show ?case by simp
next
  case (Cons x ns)
  obtain n a where x: "x = (n, a)" by (cases x)
  from Cons show ?case
    by (cases "node_point g n"; cases "node_rows g ns") (auto simp: x dest: node_point_error)
qed

lemma grid_env_rows_error:
  "\<forall>g err. graph_nodes_to_gdf grid_env g = Inl err \<longrightarrow> \<not> configuration_error err"
  using node_rows_error by (fastforce simp: grid_env_def configuration_error_def)

lemma grid_env_closest_error:
  "\<forall>cs ls err. get_closest_line_from_points grid_env cs ls = Inl err
      \<longrightarrow> \<not> configuration_error err"
  by (auto simp: grid_env_def only_line_def configuration_error_def split: if_splits)

text \<open>
  C7. A points merge on the graph object \<open>graph\<close>. With \<open>inplace\<close> false the work is
  done on a new object, a copy made before anything else: every object the caller had,
  \<open>graph\<close> among them, is as it was, the new object holds the merged graph and is what
  is returned. With \<open>inplace\<close> true the object \<open>graph\<close> itself holds the merged graph, no
  object is made, nothing else changes and \<^verbatim>\<open>None\<close> is returned.
\<close>

theorem points_merge_copy_or_in_place:
  fixes env :: "('r::{linorder,zero,minus}) env"
  assumes "graph < next_ref h"
  shows "(\<not> inplace \<longrightarrow>
            objs (fst (spatial_points_merge env h graph points_gdf inplace md)) graph = objs h graph
          \<and> (\<forall>r. r < next_ref h \<longrightarrow>
                 objs (fst (spatial_points_merge env h graph points_gdf inplace md)) r = objs h r)
          \<and> objs (fst (spatial_points_merge env h graph points_gdf inplace md)) (next_ref h)
               = fst (merge_points_into env (objs h graph) points_gdf md)
          \<and> (snd (merge_points_into env (objs h graph) points_gdf md) = None \<longrightarrow>
                 snd (spatial_points_merge env h graph points_gdf inplace md)
                   = Inr (Some (next_ref h))))
       \<and> (inplace \<longrightarrow>
            objs (fst (spatial_points_merge env h graph points_gdf inplace md)) graph
               = fst (merge_points_into env (objs h graph) points_gdf md)
          \<and> (\<forall>r. r \<noteq> graph \<longrightarrow>
                 objs (fst (spatial_points_merge env h graph points_gdf inplace md)) r = objs h r)
          \<and> next_ref (fst (spatial_points_merge env h graph points_gdf inplace md)) = next_ref h
          \<and> (snd (merge_points_into env (objs h graph) points_gdf md) = None \<longrightarrow>
                 snd (spatial_points_merge env h graph points_gdf inplace md) = Inr None))"
proof -
  obtain g' e where m: "merge_points_into env (objs h graph) points_gdf md = (g', e)"
    by (cases "merge_points_into env (objs h graph) points_gdf md")
  show ?thesis
  proof (cases inplace)
    case True
    then show ?thesis
      using m by (cases e) (simp_all add: spatial_points_merge_def store_def)
  next
    case False
    then show ?thesis
      using m assms
      by (cases e) (simp_all add: spatial_points_merge_def copy_graph_def new_object_def store_def)
  qed
qed

theorem points_merge_copy_or_in_place_witness:
  "(0::nat) < next_ref one_way_heap
   \<and> objs (fst (spatial_points_merge grid_env one_way_heap 0 [(''P'', (5, 1), Map.empty)]
                  False ''both'')) 0 = objs one_way_heap 0"
proof -
  have "(0::nat) < next_ref one_way_heap" by (simp add: one_way_heap_def)
  with points_merge_copy_or_in_place[OF this, of False grid_env "[(''P'', (5, 1), Map.empty)]" "''both''"]
  show ?thesis by simp
qed

text \<open>
  C3. The graph merge raises one of the three exceptions of lines 131 to 136 exactly
  when the two graphs differ in directedness, or differ in being multigraphs, or both
  node lists are non-empty; each condition has its message, and then the store, with
  both graphs in it, is as it was. An exception of another origin is not one of these
  three: the points merge raises none of its own, and that the two helpers that may
  raise, for the frame of the nodes and for the closest lines, raise none of the three
  is their contract here.
\<close>

theorem configuration_error_iff:
  fixes env :: "('r::{linorder,zero,minus}) env"
  assumes "\<forall>g err. graph_nodes_to_gdf env g = Inl err \<longrightarrow> \<not> configuration_error err"
    and "\<forall>cs ls err. get_closest_line_from_points env cs ls = Inl err
           \<longrightarrow> \<not> configuration_error err"
  shows "((\<exists>err. snd (spatial_graph_merge env h base_graph other_graph inplace md
                       unmerged_nodes merging_nodes) = Inl err \<and> configuration_error err)
          \<longleftrightarrow> (directed (objs h base_graph) \<noteq> directed (objs h other_graph)
               \<or> multigraph (objs h base_graph) \<noteq> multigraph (objs h other_graph)
               \<or> (unmerged_nodes \<noteq> [] \<and> merging_nodes \<noteq> [])))
       \<and> ((\<exists>err. snd (spatial_graph_merge env h base_graph other_graph inplace md
                       unmerged_nodes merging_nodes) = Inl err \<and> configuration_error err)
          \<longrightarrow> fst (spatial_graph_merge env h base_graph other_graph inplace md
                     unmerged_nodes merging_nodes) = h)
       \<and> (directed (objs h base_graph) \<noteq> directed (objs h other_graph)
          \<longrightarrow> snd (spatial_graph_merge env h base_graph other_graph inplace md
                     unmerged_nodes merging_nodes)
              = Inl (ValueError ''Merging a directed graph and an undirected graph is ambiguous''))
       \<and> (directed (objs h base_graph) = directed (objs h other_graph)
            \<and> multigraph (objs h base_graph) \<noteq> multigraph (objs h other_graph)
          \<longrightarrow> snd (spatial_graph_merge env h base_graph other_graph inplace md
                     unmerged_nodes merging_nodes)
              = Inl (ValueError ''Merging a multigraph and a graph is ambiguous''))
       \<and> (directed (objs h base_graph) = directed (objs h other_graph)
            \<and> multigraph (objs h base_graph) = multigraph (objs h other_graph)
            \<and> unmerged_nodes \<noteq> [] \<and> merging_nodes \<noteq> []
          \<longrightarrow> snd (spatial_graph_merge env h base_graph other_graph inplace md
                     unmerged_nodes merging_nodes)
              = Inl (ValueError ''Cannot provide `unmerged_nodes` and `merging_nodes`''))"
proof (cases "directed (objs h base_graph) \<noteq> directed (objs h other_graph)
               \<or> multigraph (objs h base_graph) \<noteq> multigraph (objs h other_graph)
               \<or> (unmerged_nodes \<noteq> [] \<and> merging_nodes \<noteq> [])")
  case True
  then show ?thesis by (auto simp: spatial_graph_merge_def configuration_error_def)
next
  case False
  let ?gdf = "if length merging_nodes > 0
               then graph_nodes_to_gdf env (subgraph (objs h other_graph) merging_nodes)
               else (case graph_nodes_to_gdf env (objs h other_graph) of
                       Inl err \<Rightarrow> Inl err
                     | Inr nodes_gdf \<Rightarrow> drop_rows nodes_gdf unmerged_nodes)"
  have gdf: "\<not> configuration_error err" if "?gdf = Inl err" for err
    using that assms(1)
    by (auto simp: drop_rows_def configuration_error_def split: sum.splits if_splits)
  have none: "\<not> configuration_error err"
    if r: "snd (spatial_graph_merge env h base_graph other_graph inplace md
               unmerged_nodes merging_nodes) = Inl err" for err
  proof (cases ?gdf)
    case (Inl e)
    with r False have "e = err" by (auto simp: spatial_graph_merge_def)
    with gdf[of e] Inl show ?thesis by simp
  next
    case (Inr nodes_gdf)
    obtain h1 r1 where s: "spatial_points_merge env h base_graph nodes_gdf inplace md = (h1, r1)"
      by (cases "spatial_points_merge env h base_graph nodes_gdf inplace md")
    show ?thesis
    proof (cases r1)
      case (Inl e)
      with r False Inr s have e: "e = err" by (auto simp: spatial_graph_merge_def)
      from spatial_points_merge_error[of env h base_graph nodes_gdf inplace md e] s Inl
      have "(\<exists>cs ls. get_closest_line_from_points env cs ls = Inl e) \<or> (\<forall>m. e \<noteq> ValueError m)"
        by simp
      then show ?thesis
      proof
        assume "\<exists>cs ls. get_closest_line_from_points env cs ls = Inl e"
        with assms(2) e show ?thesis by blast
      next
        assume "\<forall>m. e \<noteq> ValueError m"
        with e show ?thesis by (auto simp: configuration_error_def)
      qed
    next
      case (Inr returned)
      with r False \<open>?gdf = Inr nodes_gdf\<close> s show ?thesis
        by (auto simp: spatial_graph_merge_def Let_def new_object_def split: if_splits)
    qed
  qed
  with False show ?thesis by blast
qed

theorem configuration_error_iff_witness:
  "\<not> (\<exists>g err. graph_nodes_to_gdf grid_env g = Inl err \<and> configuration_error err)
   \<and> \<not> (\<exists>cs ls err. get_closest_line_from_points grid_env cs ls = Inl err
            \<and> configuration_error err)
   \<and> snd (spatial_graph_merge grid_env town 0 1 True ''both'' [''C''] [''D''])
       = Inl (ValueError ''Cannot provide `unmerged_nodes` and `merging_nodes`'')
   \<and> fst (spatial_graph_merge grid_env town 0 1 True ''both'' [''C''] [''D'']) = town"
proof -
  have d: "directed (objs town 0) = directed (objs town 1)"
    "multigraph (objs town 0) = multigraph (objs town 1)"
    by (simp_all add: town_def road_def lane_def)
  note inst = configuration_error_iff[OF grid_env_rows_error grid_env_closest_error,
      of town 0 1 True "''both''" "[''C'']" "[''D'']"]
  from inst d have "snd (spatial_graph_merge grid_env town 0 1 True ''both'' [''C''] [''D''])
       = Inl (ValueError ''Cannot provide `unmerged_nodes` and `merging_nodes`'')"
    by simp
  moreover from inst have "fst (spatial_graph_merge grid_env town 0 1 True ''both'' [''C''] [''D'']) = town"
    by simp
  ultimately show ?thesis using grid_env_rows_error grid_env_closest_error by blast
qed

text \<open>
  On a base graph with no edge the search of the closest lines raises, before any
  mutation; its exception is none of the three, and none of the three conditions holds.
\<close>

lemma no_line_is_no_configuration_error:
  "snd (spatial_graph_merge grid_env outpost 0 1 True ''both'' [] []) = Inl (ValueError ''no line'')
   \<and> \<not> configuration_error (ValueError ''no line'')
   \<and> node_names (objs (fst (spatial_graph_merge grid_env outpost 0 1 True ''both'' [] [])) 0)
       = [''A'']
   \<and> directed (objs outpost 0) = directed (objs outpost 1)
   \<and> multigraph (objs outpost 0) = multigraph (objs outpost 1)"
  by code_simp

text \<open>
  C2. In-place mode on the store \<open>town\<close>: the call returns \<^verbatim>\<open>None\<close>; the edge between
  \<open>C\<close> and \<open>D\<close> of the second graph is in the graph that \<^verbatim>\<open>nx.compose\<close> made, a new
  object at reference \<open>2\<close> that nothing refers to, and not in the caller's graph at
  reference \<open>0\<close>.
\<close>

theorem in_place_graph_merge_loses_union:
  "snd (spatial_graph_merge grid_env town 0 1 True ''both'' [] []) = Inr None
   \<and> has_edge (objs town 1) (''C'', ''D'', 0)
   \<and> \<not> has_edge (objs (fst (spatial_graph_merge grid_env town 0 1 True ''both'' [] [])) 0)
          (''C'', ''D'', 0)
   \<and> has_edge (objs (fst (spatial_graph_merge grid_env town 0 1 True ''both'' [] [])) 2)
        (''C'', ''D'', 0)
   \<and> next_ref town = 2
   \<and> next_ref (fst (spatial_graph_merge grid_env town 0 1 True ''both'' [] [])) = 3"
  by code_simp

text \<open>
  C1, as the claim states it, fails. On the store \<open>survey\<close> both graphs have a node \<open>A\<close>;
  the merged primary graph (reference \<open>2\<close>) has it at \<open>x = 0\<close>, the second graph has it
  at \<open>x = 5\<close>, and the graph returned (reference \<open>3\<close>) has it at \<open>x = 5\<close>.
\<close>

theorem union_overwrites_primary_attributes:
  "snd (spatial_graph_merge grid_env survey 0 1 False ''both'' [] []) = Inr (Some 3)
   \<and> node_attribute (objs (fst (spatial_graph_merge grid_env survey 0 1 False ''both'' [] [])) 2)
        ''A'' ''x'' = Some (Num 0)
   \<and> node_attribute (objs (fst (spatial_graph_merge grid_env survey 0 1 False ''both'' [] [])) 1)
        ''A'' ''x'' = Some (Num 5)
   \<and> node_attribute (objs (fst (spatial_graph_merge grid_env survey 0 1 False ''both'' [] [])) 3)
        ''A'' ''x'' = Some (Num 5)"
  by code_simp

lemma map_of_add_node:
  "map_of (nodes (add_node g n a)) =
     (map_of (nodes g))(n \<mapsto> (case map_of (nodes g) n of None \<Rightarrow> a | Some old \<Rightarrow> old ++ a))"
  by (simp add: add_node_def update_conv')

lemma fold_add_node_lookup:
  "distinct (map fst xs) \<Longrightarrow>
   map_of (nodes (fold (\<lambda>(n, a) R. add_node R n a) xs R)) n =
     (case map_of xs n of
        None \<Rightarrow> map_of (nodes R) n
      | Some a \<Rightarrow> Some (case map_of (nodes R) n of None \<Rightarrow> a | Some old \<Rightarrow> old ++ a))"
proof (induction xs arbitrary: R)
  case Nil
  then show ?case by simp
next
  case (Cons x xs)
  obtain m b where x: "x = (m, b)" by (cases x)
  from Cons.prems have d: "distinct (map fst xs)" and m: "m \<notin> fst ` set xs"
    by (simp_all add: x)
  from m have none: "map_of xs m = None" by (simp add: map_of_eq_None_iff)
  show ?case
    using Cons.IH[OF d, of "add_node R m b"] none
    by (auto simp: x map_of_add_node split: option.splits)
qed

lemma ensure_node_lookup:
  "map_of (nodes g) n = Some x \<Longrightarrow> map_of (nodes (ensure_node g m)) n = Some x"
  by (simp add: ensure_node_def map_add_def)

lemma add_edge_key_lookup:
  "map_of (nodes g) n = Some x \<Longrightarrow> map_of (nodes (add_edge_key g e a)) n = Some x"
  by (auto simp: add_edge_key_def Let_def ensure_node_lookup split: option.splits)

lemma fold_add_edge_key_lookup:
  "map_of (nodes R) n = Some x \<Longrightarrow>
   map_of (nodes (fold (\<lambda>(e, a) R. add_edge_key R e a) es R)) n = Some x"
  by (induction es arbitrary: R) (auto simp: add_edge_key_lookup)

text \<open>
  C1, amended. A node of both graphs has, in the graph that the union step makes, the
  attributes of the primary graph updated with those of the second graph: an attribute
  that the second graph gives has the value of the second graph, an attribute that only
  the primary graph gives keeps its value.
\<close>

theorem union_updates_primary_attributes:
  assumes "distinct (map fst (nodes G))" and "distinct (map fst (nodes H))"
    and "map_of (nodes G) n = Some a" and "map_of (nodes H) n = Some b"
  shows "map_of (nodes (compose G H)) n = Some (a ++ b)"
proof -
  let ?R0 = "G\<lparr>nodes := [], edges := []\<rparr>"
  let ?R1 = "fold (\<lambda>(n, a) R. add_node R n a) (nodes G) ?R0"
  let ?R2 = "fold (\<lambda>(n, a) R. add_node R n a) (nodes H) ?R1"
  have "map_of (nodes ?R1) n = Some a"
    using fold_add_node_lookup[OF assms(1), of ?R0 n] assms(3) by simp
  then have "map_of (nodes ?R2) n = Some (a ++ b)"
    using fold_add_node_lookup[OF assms(2), of ?R1 n] assms(4) by simp
  then have "map_of (nodes (fold (\<lambda>(e, a) R. add_edge_key R e a) (edges G @ edges H) ?R2)) n
      = Some (a ++ b)"
    by (rule fold_add_edge_key_lookup)
  then show ?thesis by (simp add: compose_def)
qed

theorem union_updates_primary_attributes_witness:
  "distinct (map fst (nodes road)) \<and> distinct (map fst (nodes marker))
   \<and> map_of (nodes road) ''A'' = Some [''x'' \<mapsto> Num 0, ''y'' \<mapsto> Num 0]
   \<and> map_of (nodes marker) ''A'' = Some [''x'' \<mapsto> Num 5, ''y'' \<mapsto> Num 1]
   \<and> map_of (nodes (compose road marker)) ''A''
       = Some ([''x'' \<mapsto> Num 0, ''y'' \<mapsto> Num 0] ++ [''x'' \<mapsto> Num 5, ''y'' \<mapsto> Num 1])"
proof -
  have h: "distinct (map fst (nodes road))" "distinct (map fst (nodes marker))"
    "map_of (nodes road) ''A'' = Some [''x'' \<mapsto> Num 0, ''y'' \<mapsto> Num 0]"
    "map_of (nodes marker) ''A'' = Some [''x'' \<mapsto> Num 5, ''y'' \<mapsto> Num 1]"
    by (simp_all add: road_def marker_def)
  from union_updates_primary_attributes[OF h] h show ?thesis by blast
qed

section \<open>The nodes that a points merge adds\<close>

lemma set_update_subset: "set (AList.update k v al) \<subseteq> insert (k, v) (set al)"
  by (induction al) auto

lemma edges_closed_extend:
  assumes "edges_closed g"
    and "\<forall>entry \<in> set new. fst (fst entry) \<in> set (node_names g) \<union> fst ` set xs
            \<and> fst (snd (fst entry)) \<in> set (node_names g) \<union> fst ` set xs"
  shows "edges_closed (g\<lparr>nodes := nodes g @ xs, edges := edges g @ new\<rparr>)"
  using assms unfolding edges_closed_def node_names_def by auto

lemma record_split_entries:
  assumes "entry \<in> set (record_split ets e n d)"
  shows "entry \<in> set ets
       \<or> (fst entry = e \<and> fst ` set (snd entry) \<subseteq> insert n (\<Union>x \<in> set ets. fst ` set (snd x)))"
proof -
  let ?old = "case map_of ets e of None \<Rightarrow> [] | Some ns \<Rightarrow> ns"
  have old: "fst ` set ?old \<subseteq> (\<Union>x \<in> set ets. fst ` set (snd x))"
  proof (cases "map_of ets e")
    case None
    then show ?thesis by simp
  next
    case (Some ns)
    then have "(e, ns) \<in> set ets" by (rule map_of_SomeD)
    then have "fst ` set ns \<subseteq> (\<Union>x \<in> set ets. fst ` set (snd x))" by force
    with Some show ?thesis by simp
  qed
  from assms have "entry \<in> insert (e, AList.update n d ?old) (set ets)"
    unfolding record_split_def using set_update_subset by fastforce
  moreover have "fst ` set (AList.update n d ?old) \<subseteq> insert n (fst ` set ?old)"
    by (simp add: dom_update)
  ultimately show ?thesis
  proof (cases "entry \<in> set ets")
    case False
    assume "entry \<in> insert (e, AList.update n d ?old) (set ets)"
      and sub: "fst ` set (AList.update n d ?old) \<subseteq> insert n (fst ` set ?old)"
    with False have entry: "entry = (e, AList.update n d ?old)" by simp
    from sub old have "fst ` set (AList.update n d ?old)
        \<subseteq> insert n (\<Union>x \<in> set ets. fst ` set (snd x))"
      by blast
    with entry show ?thesis by simp
  qed simp
qed

lemma table_known_record_split:
  assumes "table_known g ets" and "fst e \<in> set (node_names g')" "fst (snd e) \<in> set (node_names g')"
    and "n \<in> set (node_names g')" and "set (node_names g) \<subseteq> set (node_names g')"
  shows "table_known g' (record_split ets e n d)"
  unfolding table_known_def
proof
  fix entry
  assume "entry \<in> set (record_split ets e n d)"
  from record_split_entries[OF this]
  show "fst (fst entry) \<in> set (node_names g') \<and> fst (snd (fst entry)) \<in> set (node_names g')
        \<and> fst ` set (snd entry) \<subseteq> set (node_names g')"
  proof
    assume "entry \<in> set ets"
    with assms(1,5) show ?thesis unfolding table_known_def by blast
  next
    assume a: "fst entry = e \<and> fst ` set (snd entry) \<subseteq> insert n (\<Union>x \<in> set ets. fst ` set (snd x))"
    have "(\<Union>x \<in> set ets. fst ` set (snd x)) \<subseteq> set (node_names g)"
      using assms(1) unfolding table_known_def by blast
    with assms(4,5) have "insert n (\<Union>x \<in> set ets. fst ` set (snd x)) \<subseteq> set (node_names g')"
      by blast
    with a have "fst ` set (snd entry) \<subseteq> set (node_names g')" by blast
    with a assms(2,3) show ?thesis by simp
  qed
qed

lemma table_known_mono:
  "table_known g ets \<Longrightarrow> set (node_names g) \<subseteq> set (node_names g') \<Longrightarrow> table_known g' ets"
  unfolding table_known_def by blast

lemma link_edges_ends:
  "\<forall>entry \<in> set (link_edges g md n i cn ci).
     fst (fst entry) \<in> {n, i} \<and> fst (snd (fst entry)) \<in> {n, i}"
  by (auto simp: link_edges_def split: if_splits)

lemma place_point_invariant:
  fixes env :: "('r::{linorder,zero}) env" and g :: "'r geograph"
  assumes U: "unique_names env" and C: "edges_closed g" and K: "lines_known g eal"
    and T: "table_known g ets"
    and step: "place_point env md eal idxs (g, ets) (p, p_index, point, cols) = ((g', ets'), None)"
  shows "edges_closed g' \<and> lines_known g' eal \<and> table_known g' ets'
       \<and> (\<exists>new. nodes g' = nodes g @ new \<and> length new = 1
            + (if interior_projection env eal idxs (p, p_index, point, cols) then 1 else 0))"
proof -
  define n where "n = get_new_node_unique_name env g p_index"
  define info where "info = cols(x_key g \<mapsto> Num (fst point), y_key g \<mapsto> Num (snd point))"
  define cn where "cn = (if x_key g = y_key g then snd point else fst point, snd point)"
  from U K step show ?thesis
  proof (cases rule: place_point_cases)
    case (interior e line)
    define d where "d = project env line point"
    define i where "i = get_new_node_unique_name env (g\<lparr>nodes := nodes g @ [(n, info)]\<rparr>)
                (INTERSECTION_PREFIX env @ p_index)"
    define iinfo where "iinfo = [x_key g \<mapsto> Num (fst (interpolate env line d)),
                   y_key g \<mapsto> Num (snd (interpolate env line d))]"
    define ci where "ci = (if x_key g = y_key g then snd (interpolate env line d)
                else fst (interpolate env line d), snd (interpolate env line d))"
    have "((g', ets'), None :: error option) =
        ((g\<lparr>nodes := nodes g @ [(n, info), (i, iinfo)],
            edges := edges g @ link_edges g md n i cn ci\<rparr>, record_split ets e i d), None)"
      using step place_point_interior[OF U C interior, where p_index=p_index and cols=cols and md=md and ets=ets]
      unfolding n_def info_def cn_def d_def i_def iinfo_def ci_def by simp
    then have g': "g' = g\<lparr>nodes := nodes g @ [(n, info), (i, iinfo)],
                edges := edges g @ link_edges g md n i cn ci\<rparr>"
      and e': "ets' = record_split ets e i d"
      by simp_all
    have names: "node_names g' = node_names g @ [n, i]"
      unfolding g' by (simp add: node_names_def)
    have c: "edges_closed g'"
      unfolding g' using link_edges_ends[of g md n i cn ci]
      by (intro edges_closed_extend[OF C]) fastforce
    have k: "lines_known g' eal"
      using K unfolding lines_known_def names by auto
    have "(e, Geom line) \<in> set eal" using interior(2,3) by (metis nth_mem)
    then have "fst e \<in> set (node_names g)" "fst (snd e) \<in> set (node_names g)"
      using K unfolding lines_known_def by force+
    then have t: "table_known g' ets'"
      unfolding e' by (intro table_known_record_split[OF T]) (auto simp: names)
    have "interior_projection env eal idxs (p, p_index, point, cols)"
      using interior by (simp add: interior_projection_def)
    then show ?thesis using c k t by (simp add: g')
  next
    case (snap u v k line pu pv)
    define i where "i = (if euclidian_distance env point pu < euclidian_distance env point pv
                         then u else v)"
    define ci where "ci = (if euclidian_distance env point pu < euclidian_distance env point pv
                         then pu else pv)"
    have u: "u \<in> set (node_names g)" and v: "v \<in> set (node_names g)"
      using snap(5,6) by (auto dest: node_point_known)
    then have i: "i \<in> set (node_names g)" by (simp add: i_def)
    have "((g', ets'), None :: error option) =
        ((g\<lparr>nodes := nodes g @ [(n, info)],
            edges := edges g @ link_edges g md n i cn ci\<rparr>, ets), None)"
      using step place_point_snap[OF U C snap, where p_index=p_index and cols=cols and md=md and ets=ets]
      unfolding n_def info_def cn_def i_def ci_def by simp
    then have g': "g' = g\<lparr>nodes := nodes g @ [(n, info)],
                edges := edges g @ link_edges g md n i cn ci\<rparr>"
      and e': "ets' = ets"
      by simp_all
    have names: "node_names g' = node_names g @ [n]"
      unfolding g' by (simp add: node_names_def)
    have c: "edges_closed g'"
      unfolding g' using i link_edges_ends[of g md n i cn ci]
      by (intro edges_closed_extend[OF C]) fastforce
    have kk: "lines_known g' eal"
      using K unfolding lines_known_def names by auto
    have t: "table_known g' ets'"
      unfolding e' by (rule table_known_mono[OF T]) (auto simp: names)
    have "\<not> interior_projection env eal idxs (p, p_index, point, cols)"
      using snap by (simp add: interior_projection_def)
    then show ?thesis using c kk t by (simp add: g')
  qed
qed

lemma place_points_invariant:
  fixes env :: "('r::{linorder,zero}) env" and g :: "'r geograph"
  assumes U: "unique_names env"
  shows "edges_closed g \<Longrightarrow> lines_known g eal \<Longrightarrow> table_known g ets \<Longrightarrow>
         place_points env md eal idxs (g, ets) rows = ((g', ets'), None) \<Longrightarrow>
         edges_closed g' \<and> lines_known g' eal \<and> table_known g' ets'
         \<and> (\<exists>new. nodes g' = nodes g @ new \<and> length new = length rows
              + length (filter (interior_projection env eal idxs) rows))"
proof (induction rows arbitrary: g ets)
  case Nil
  then show ?case by simp
next
  case (Cons row rows)
  obtain p p_index point cols where row: "row = (p, p_index, point, cols)"
    by (metis prod.collapse)
  obtain g1 ets1 r where s: "place_point env md eal idxs (g, ets) row = ((g1, ets1), r)"
    by (metis prod.collapse)
  have r: "r = None" using Cons.prems(4) s by (cases r) simp_all
  from Cons.prems(4) s r have rest: "place_points env md eal idxs (g1, ets1) rows = ((g', ets'), None)"
    by simp
  from place_point_invariant[OF U Cons.prems(1,2,3) s[unfolded row r]]
  have i1: "edges_closed g1" "lines_known g1 eal" "table_known g1 ets1"
    and "\<exists>new. nodes g1 = nodes g @ new
           \<and> length new = 1 + (if interior_projection env eal idxs row then 1 else 0)"
    by (simp_all add: row)
  then obtain new1 where n1: "nodes g1 = nodes g @ new1"
    "length new1 = 1 + (if interior_projection env eal idxs row then 1 else 0)"
    by blast
  from Cons.IH[OF i1 rest] obtain new2 where n2: "nodes g' = nodes g1 @ new2"
    "length new2 = length rows + length (filter (interior_projection env eal idxs) rows)"
    and inv: "edges_closed g'" "lines_known g' eal" "table_known g' ets'"
    by blast
  have "nodes g' = nodes g @ (new1 @ new2)" using n1 n2 by simp
  moreover have "length (new1 @ new2) = length (row # rows)
      + length (filter (interior_projection env eal idxs) (row # rows))"
    using n1 n2 by simp
  ultimately show ?case using inv by blast
qed


lemma add_edge_nodes:
  "u \<in> set (node_names g) \<Longrightarrow> v \<in> set (node_names g) \<Longrightarrow> nodes (add_edge g u v a) = nodes g"
  by (simp add: add_edge_def add_edge_key_def ensure_node_present split: option.splits)

lemma remove_edge_nodes: "nodes (remove_edge g e) = nodes g"
  by (simp add: remove_edge_def)

lemma fold_keeps_nodes:
  "(\<And>x G. x \<in> set xs \<Longrightarrow> nodes G = N \<Longrightarrow> nodes (f x G) = N) \<Longrightarrow> nodes G = N
   \<Longrightarrow> nodes (fold f xs G) = N"
  by (induction xs arbitrary: G) simp_all

lemma add_split_edges_nodes:
  assumes "sorted_nodes \<noteq> []" and "set sorted_nodes \<subseteq> set (node_names g)"
    and "fst e \<in> set (node_names g)" and "fst (snd e) \<in> set (node_names g)"
  shows "nodes (add_split_edges g e sorted_nodes split_lines) = nodes g"
proof -
  let ?k = "edges_geometry_key g"
  let ?g1 = "add_edge g (fst e) (sorted_nodes ! 0) [?k \<mapsto> Geom (split_lines ! 0)]"
  let ?g2 = "add_edge ?g1 (last sorted_nodes) (fst (snd e)) [?k \<mapsto> Geom (last split_lines)]"
  have "sorted_nodes ! 0 \<in> set sorted_nodes" "last sorted_nodes \<in> set sorted_nodes"
    using assms(1) by simp_all
  then have first: "sorted_nodes ! 0 \<in> set (node_names g)"
    and last: "last sorted_nodes \<in> set (node_names g)"
    using assms(2) by blast+
  have g1: "nodes ?g1 = nodes g" using assms(3) first by (rule add_edge_nodes)
  then have names1: "node_names ?g1 = node_names g" by (simp add: node_names_def)
  have g2: "nodes ?g2 = nodes g"
    using add_edge_nodes[of "last sorted_nodes" ?g1 "fst (snd e)"] last assms(4) names1 g1 by simp
  have "nodes (fold (\<lambda>i g'. add_edge g' (sorted_nodes ! i) (sorted_nodes ! (i + 1))
                      [?k \<mapsto> Geom (split_lines ! (i + 1))])
                 [0..<length sorted_nodes - 1] ?g2) = nodes g"
  proof (rule fold_keeps_nodes[OF _ g2])
    fix i and G :: "'a geograph"
    assume i: "i \<in> set [0..<length sorted_nodes - 1]" and G: "nodes G = nodes g"
    then have "sorted_nodes ! i \<in> set (node_names g)" "sorted_nodes ! (i + 1) \<in> set (node_names g)"
      using assms(2) by (auto intro: nth_mem)
    moreover have "node_names G = node_names g" using G by (simp add: node_names_def)
    ultimately show "nodes (add_edge G (sorted_nodes ! i) (sorted_nodes ! (i + 1))
                      [?k \<mapsto> Geom (split_lines ! (i + 1))]) = nodes g"
      using add_edge_nodes[of "sorted_nodes ! i" G "sorted_nodes ! (i + 1)"] G by simp
  qed
  then show ?thesis by (simp add: add_split_edges_def Let_def)
qed

lemma set_sorted_intersection_nodes:
  "set (sorted_intersection_nodes reqs) = fst ` set reqs"
  by (simp add: sorted_intersection_nodes_def)

lemma split_edge_nodes:
  assumes "fst e \<in> set (node_names g)" "fst (snd e) \<in> set (node_names g)"
    and "fst ` set reqs \<subseteq> set (node_names g)"
  shows "nodes (fst (split_edge env eal g (e, reqs))) = nodes g"
proof (cases "reqs = []")
  case True
  then show ?thesis by (simp add: split_edge_def)
next
  case False
  let ?g1 = "if has_edge g e then remove_edge g e else g"
  have g1: "nodes ?g1 = nodes g" by (simp add: remove_edge_nodes)
  then have names: "node_names ?g1 = node_names g" by (simp add: node_names_def)
  have ne: "sorted_intersection_nodes reqs \<noteq> []"
    using False set_sorted_intersection_nodes[of reqs] by (metis image_is_empty set_empty)
  have "nodes (add_split_edges ?g1 e (sorted_intersection_nodes reqs) segs) = nodes g" for segs
    using add_split_edges_nodes[of "sorted_intersection_nodes reqs" ?g1 e segs] ne assms names g1
    by (simp add: set_sorted_intersection_nodes)
  then show ?thesis
    using False g1
    by (auto simp: split_edge_def Let_def split: option.splits val.splits)
qed

lemma split_edges_nodes:
  "table_known g ets \<Longrightarrow> nodes (fst (split_edges env eal g ets)) = nodes g"
proof (induction ets arbitrary: g)
  case Nil
  then show ?case by simp
next
  case (Cons entry ets)
  obtain e reqs where entry: "entry = (e, reqs)" by (cases entry)
  obtain g1 r where s: "split_edge env eal g (e, reqs) = (g1, r)"
    by (cases "split_edge env eal g (e, reqs)")
  from Cons.prems have "fst e \<in> set (node_names g)" "fst (snd e) \<in> set (node_names g)"
    "fst ` set reqs \<subseteq> set (node_names g)"
    by (simp_all add: table_known_def entry)
  from split_edge_nodes[OF this, of env eal] s have g1: "nodes g1 = nodes g" by simp
  then have "table_known g1 ets"
    using Cons.prems by (simp add: table_known_def node_names_def)
  from Cons.IH[OF this] g1 s show ?case
    by (cases r) (simp_all add: entry)
qed

lemma get_edge_attributes_known:
  "edges_closed g \<Longrightarrow> lines_known g (get_edge_attributes g name)"
  by (auto simp: edges_closed_def lines_known_def get_edge_attributes_def
        List.map_filter_def split: option.splits)

text \<open>
  C8. A points merge of \<open>N\<close> points that ends without an exception keeps the nodes of the
  graph and adds \<open>N\<close> nodes and \<open>k\<close> more, where \<open>k\<close> is the number of points whose
  projection is inside their closest line; \<open>k\<close> is at most \<open>N\<close>.
\<close>

theorem points_merge_node_count:
  fixes env :: "('r::{linorder,zero,minus}) env" and g :: "'r geograph"
  assumes "unique_names env" and "edges_closed g"
    and "merge_points_into env g points_gdf md = (g', None)"
  shows "(\<exists>new. nodes g' = nodes g @ new
            \<and> length new = length points_gdf + interior_count env g points_gdf)
       \<and> interior_count env g points_gdf \<le> length points_gdf"
proof
  let ?eal = "get_edge_attributes g (edges_geometry_key g)"
  let ?cs = "map (\<lambda>(p_index, point, cols). point) points_gdf"
  let ?rows = "zip [0..<length points_gdf] points_gdf"
  obtain idxs where idxs: "get_closest_line_from_points env ?cs (map snd ?eal) = Inr idxs"
    using assms(3)
    by (cases "get_closest_line_from_points env ?cs (map snd ?eal)")
       (simp_all add: merge_points_into_def Let_def)
  have count: "interior_count env g points_gdf
      = length (filter (interior_projection env ?eal idxs) ?rows)"
    by (simp add: interior_count_def Let_def idxs)
  obtain g1 ets r where p: "place_points env md ?eal idxs (g, []) ?rows = ((g1, ets), r)"
    by (metis prod.collapse)
  have r: "r = None"
    using assms(3) p idxs by (cases r) (simp_all add: merge_points_into_def Let_def)
  have s: "split_edges env ?eal g1 ets = (g', None)"
    using assms(3) p r idxs by (simp add: merge_points_into_def Let_def)
  have "table_known g []" by (simp add: table_known_def)
  from place_points_invariant[OF assms(1,2) get_edge_attributes_known[OF assms(2)] this p[unfolded r]]
  obtain new where t: "table_known g1 ets" and n: "nodes g1 = nodes g @ new"
    "length new = length ?rows + length (filter (interior_projection env ?eal idxs) ?rows)"
    by blast
  from split_edges_nodes[OF t, of env ?eal] s have "nodes g' = nodes g1" by simp
  with n show "\<exists>new. nodes g' = nodes g @ new
            \<and> length new = length points_gdf + interior_count env g points_gdf"
    by (simp add: count)
  have "length (filter (interior_projection env ?eal idxs) ?rows) \<le> length ?rows"
    by (rule length_filter_le)
  then show "interior_count env g points_gdf \<le> length points_gdf"
    by (simp add: count)
qed

theorem points_merge_node_count_witness:
  "unique_names grid_env \<and> edges_closed road
   \<and> merge_points_into grid_env road
            [(''C'', (3, 1), Map.empty), (''P'', (-1, 0), Map.empty)] ''both''
       = (fst (merge_points_into grid_env road
            [(''C'', (3, 1), Map.empty), (''P'', (-1, 0), Map.empty)] ''both''), None)
   \<and> length (nodes (fst (merge_points_into grid_env road
            [(''C'', (3, 1), Map.empty), (''P'', (-1, 0), Map.empty)] ''both'')))
       = length (nodes road) + 2
         + interior_count grid_env road [(''C'', (3, 1), Map.empty), (''P'', (-1, 0), Map.empty)]
   \<and> interior_count grid_env road [(''C'', (3, 1), Map.empty), (''P'', (-1, 0), Map.empty)] = 1"
proof -
  let ?pts = "[(''C'', (3, 1), Map.empty), (''P'', (-1, 0), Map.empty)] :: int points_gdf"
  have ok: "snd (merge_points_into grid_env road ?pts ''both'') = None"
    by code_simp
  then have eq: "merge_points_into grid_env road ?pts ''both''
       = (fst (merge_points_into grid_env road ?pts ''both''), None)"
    by (metis prod.collapse)
  from points_merge_node_count[OF unique_names_grid_env road_closed(1) eq]
  have "length (nodes (fst (merge_points_into grid_env road ?pts ''both'')))
       = length (nodes road) + 2 + interior_count grid_env road ?pts"
    by auto
  moreover have "interior_count grid_env road ?pts = 1"
    by code_simp
  ultimately show ?thesis using eq unique_names_grid_env road_closed(1) by blast
qed

section \<open>Edge splitting\<close>

lemma cut_loop:
  fixes env :: "('r::minus) env"
  assumes "j < length ds"
  shows "(case fold (\<lambda>i (cut_lines, split_lines).
               (let cut_lines' = split_line env (snd cut_lines) (ds ! (i + 1) - ds ! i)
                in (cut_lines', split_lines @ [fst cut_lines'])))
             [j..<length ds - 1] (c0, sl) of
           (cut_lines, split_lines) \<Rightarrow> split_lines @ [snd cut_lines])
         = sl @ cut_remainder env (snd c0) (ds ! j) (drop (Suc j) ds)"
  using assms
proof (induction "length ds - 1 - j" arbitrary: j c0 sl)
  case 0
  then have "j = length ds - 1" by simp
  then show ?case using 0 by simp
next
  case (Suc m)
  then have j: "j < length ds - 1" by simp
  then have upt: "[j..<length ds - Suc 0] = j # [Suc j..<length ds - Suc 0]"
    by (simp add: upt_conv_Cons)
  have d: "drop (Suc j) ds = ds ! Suc j # drop (Suc (Suc j)) ds"
    using j by (simp add: Cons_nth_drop_Suc)
  obtain a b where ab: "split_line env (snd c0) (ds ! Suc j - ds ! j) = (a, b)"
    by (cases "split_line env (snd c0) (ds ! Suc j - ds ! j)")
  have m: "m = length ds - 1 - Suc j" using Suc(2) by simp
  have sj: "Suc j < length ds" using j by simp
  show ?case
    using Suc(1)[OF m sj, of "(a, b)" "sl @ [a]"]
    by (simp add: upt d ab Let_def)
qed

lemma cut_initial_line_sub_segments:
  fixes env :: "('r::minus) env"
  assumes "ds \<noteq> []"
  shows "cut_initial_line env line ds = sub_segments env line ds"
proof -
  obtain d rest where ds: "ds = d # rest" using assms by (cases ds) auto
  obtain a b where ab: "split_line env line d = (a, b)" by (cases "split_line env line d")
  have "0 < length ds" using assms by simp
  from cut_loop[OF this, of env "(a, b)" "[a]"] show ?thesis
    by (simp add: cut_initial_line_def ds ab Let_def)
qed

lemma length_cut_remainder: "length (cut_remainder env line prev ds) = Suc (length ds)"
  by (induction ds arbitrary: line prev) (simp_all split: prod.splits)

lemma length_sub_segments: "length (sub_segments env line ds) = Suc (length ds)"
  by (cases ds) (simp_all add: length_cut_remainder split: prod.splits)

lemma chain_links_length:
  "length segs = Suc (length ns) \<Longrightarrow> length (chain_links u ns v segs) = Suc (length ns)"
  by (simp add: chain_links_def)

lemma chain_links_middle:
  assumes "length segs = Suc (length ns)" and "ns \<noteq> []"
  shows "butlast (tl (chain_links u ns v segs))
           = map (\<lambda>i. (ns ! i, ns ! (i + 1), segs ! (i + 1))) [0..<length ns - 1]"
proof (rule nth_equalityI)
  show "length (butlast (tl (chain_links u ns v segs)))
          = length (map (\<lambda>i. (ns ! i, ns ! (i + 1), segs ! (i + 1))) [0..<length ns - 1])"
    using assms by (simp add: chain_links_def)
next
  fix i
  assume "i < length (butlast (tl (chain_links u ns v segs)))"
  then have i: "i < length ns - 1" using assms by (simp add: chain_links_def)
  then have "butlast (tl (chain_links u ns v segs)) ! i = chain_links u ns v segs ! Suc i"
    using assms by (simp add: nth_butlast nth_tl chain_links_def)
  also have "\<dots> = (ns ! i, ns ! (i + 1), segs ! (i + 1))"
  proof -
    have "Suc i < length ns" using i by simp
    then show ?thesis using assms by (simp add: chain_links_def nth_append)
  qed
  finally show "butlast (tl (chain_links u ns v segs)) ! i
          = map (\<lambda>i. (ns ! i, ns ! (i + 1), segs ! (i + 1))) [0..<length ns - 1] ! i"
    using i by simp
qed

lemma chain_links_ends:
  assumes "length segs = Suc (length ns)" and "ns \<noteq> []"
  shows "hd (chain_links u ns v segs) = (u, ns ! 0, segs ! 0)"
    and "last (chain_links u ns v segs) = (last ns, v, last segs)"
proof -
  have ne: "chain_links u ns v segs \<noteq> []" using assms by (auto simp: chain_links_def)
  have len: "length (chain_links u ns v segs) = Suc (length ns)"
    using assms(1) by (rule chain_links_length)
  show "hd (chain_links u ns v segs) = (u, ns ! 0, segs ! 0)"
    using assms by (cases ns; cases segs) (simp_all add: chain_links_def)
  have "last (chain_links u ns v segs) = chain_links u ns v segs ! length ns"
    using ne len by (simp add: last_conv_nth)
  also have "\<dots> = ((u # ns) ! length ns, (ns @ [v]) ! length ns, segs ! length ns)"
    using assms by (simp add: chain_links_def)
  also have "\<dots> = (last ns, v, last segs)"
  proof -
    have "(u # ns) ! length ns = last ns"
      using assms(2) by (cases ns) (simp_all add: last_conv_nth)
    moreover have "segs ! length ns = last segs"
    proof -
      have "segs \<noteq> []" "length ns = length segs - 1" using assms(1) by auto
      then show ?thesis by (simp add: last_conv_nth)
    qed
    ultimately show ?thesis by simp
  qed
  finally show "last (chain_links u ns v segs) = (last ns, v, last segs)" .
qed

text \<open>
  What lines 89 to 112 do for an edge with at least one split request: the nodes are put
  in the order of their distances; the edge is removed if the graph has it;
  \<^verbatim>\<open>add_edge\<close> is then called once for each link of the chain, with its sub-segment:
  for the first link, for the last link, then for the links between them.
\<close>

lemma split_edge_chain:
  fixes env :: "('r::{linorder,minus}) env"
  assumes "reqs \<noteq> []" and "map_of eal (u, v, k) = Some (Geom line)"
  defines "ns \<equiv> sorted_intersection_nodes reqs"
  defines "segs \<equiv> sub_segments env line (map (\<lambda>n. the (map_of reqs n)) ns)"
  defines "links \<equiv> chain_links u ns v segs"
  shows "split_edge env eal g ((u, v, k), reqs) =
           (fold (\<lambda>(a, b, seg) G. add_edge G a b [edges_geometry_key g \<mapsto> Geom seg])
              (hd links # last links # butlast (tl links))
              (if has_edge g (u, v, k) then remove_edge g (u, v, k) else g), None)"
    and "sorted (map (\<lambda>n. the (map_of reqs n)) ns)"
    and "set ns = fst ` set reqs"
    and "length links = Suc (length reqs)"
proof -
  let ?ds = "map (\<lambda>n. the (map_of reqs n)) ns"
  let ?g1 = "if has_edge g (u, v, k) then remove_edge g (u, v, k) else g"
  have len_ns: "length ns = length reqs" by (simp add: ns_def sorted_intersection_nodes_def)
  then have ne: "ns \<noteq> []" using assms(1) by auto
  then have dne: "?ds \<noteq> []" by simp
  have segs: "cut_initial_line env line ?ds = segs"
    unfolding segs_def by (rule cut_initial_line_sub_segments[OF dne])
  have len: "length segs = Suc (length ns)" by (simp add: segs_def length_sub_segments)
  have key: "edges_geometry_key ?g1 = edges_geometry_key g" by (simp add: remove_edge_def)
  have "add_split_edges ?g1 (u, v, k) ns segs =
      fold (\<lambda>(a, b, seg) G. add_edge G a b [edges_geometry_key g \<mapsto> Geom seg])
        (hd links # last links # butlast (tl links)) ?g1"
    unfolding links_def chain_links_ends[OF len ne] chain_links_middle[OF len ne]
    by (simp add: add_split_edges_def Let_def key fold_map comp_def del: upt_Suc)
  then show "split_edge env eal g ((u, v, k), reqs) =
           (fold (\<lambda>(a, b, seg) G. add_edge G a b [edges_geometry_key g \<mapsto> Geom seg])
              (hd links # last links # butlast (tl links)) ?g1, None)"
    using assms(1,2) segs by (simp add: split_edge_def Let_def ns_def[symmetric])
  show "sorted ?ds"
    using sorted_sort_key[of "\<lambda>n. the (map_of reqs n)" "map fst reqs"]
    by (simp add: ns_def sorted_intersection_nodes_def)
  show "set ns = fst ` set reqs"
    by (simp add: ns_def sorted_intersection_nodes_def)
  show "length links = Suc (length reqs)"
    unfolding links_def using chain_links_length[OF len] len_ns by simp
qed


lemma fold_add_new_edges:
  assumes "\<forall>(a, b, seg) \<in> set ls. a \<in> set (node_names G) \<and> b \<in> set (node_names G)"
    and "\<forall>(a, b, seg) \<in> set ls. \<forall>entry \<in> set (edges G).
           \<not> same_edge (directed G) (fst entry) (a, b, snd (snd (fst entry)))"
    and "\<forall>i < length ls. \<forall>j < i.
           \<not> same_edge (directed G) (fst (ls ! j), fst (snd (ls ! j)), 0)
                (fst (ls ! i), fst (snd (ls ! i)), 0)"
  shows "fold (\<lambda>(a, b, seg) G. add_edge G a b [key \<mapsto> Geom seg]) ls G
           = G\<lparr>edges := edges G @ map (\<lambda>(a, b, seg). ((a, b, 0), [key \<mapsto> Geom seg])) ls\<rparr>"
  using assms
proof (induction ls arbitrary: G)
  case Nil
  then show ?case by simp
next
  case (Cons l ls)
  obtain a b seg where l: "l = (a, b, seg)" by (metis prod.collapse)
  let ?G1 = "G\<lparr>edges := edges G @ [((a, b, 0), [key \<mapsto> Geom seg])]\<rparr>"
  have ab: "a \<in> set (node_names G)" "b \<in> set (node_names G)"
    using Cons.prems(1) by (auto simp: l)
  have "\<forall>entry \<in> set (edges G). \<not> same_edge (directed G) (fst entry) (a, b, snd (snd (fst entry)))"
    using Cons.prems(2) by (auto simp: l)
  from add_edge_new[OF ab this] have first: "add_edge G a b [key \<mapsto> Geom seg] = ?G1" .
  have p1: "\<forall>(a, b, seg) \<in> set ls. a \<in> set (node_names ?G1) \<and> b \<in> set (node_names ?G1)"
    using Cons.prems(1) by (auto simp: node_names_def)
  have p2: "\<forall>(a', b', seg') \<in> set ls. \<forall>entry \<in> set (edges ?G1).
           \<not> same_edge (directed ?G1) (fst entry) (a', b', snd (snd (fst entry)))"
  proof (clarify)
    fix a' b' seg' entry
    assume m: "(a', b', seg') \<in> set ls" and e: "entry \<in> set (edges ?G1)"
      and s: "same_edge (directed ?G1) (fst entry) (a', b', snd (snd (fst entry)))"
    from m obtain i where i: "i < length ls" "ls ! i = (a', b', seg')"
      by (auto simp: in_set_conv_nth)
    show False
    proof (cases "entry \<in> set (edges G)")
      case True
      with Cons.prems(2) m s show False by (auto simp: l)
    next
      case False
      with e have entry: "entry = ((a, b, 0), [key \<mapsto> Geom seg])" by simp
      from Cons.prems(3)[rule_format, of "Suc i" 0] i
      have "\<not> same_edge (directed G) (a, b, 0) (a', b', 0)" by (simp add: l)
      with s entry show False by simp
    qed
  qed
  have p3: "\<forall>i < length ls. \<forall>j < i.
           \<not> same_edge (directed ?G1) (fst (ls ! j), fst (snd (ls ! j)), 0)
                (fst (ls ! i), fst (snd (ls ! i)), 0)"
  proof (intro allI impI)
    fix i j
    assume "i < length ls" "j < i"
    with Cons.prems(3)[rule_format, of "Suc i" "Suc j"]
    show "\<not> same_edge (directed ?G1) (fst (ls ! j), fst (snd (ls ! j)), 0)
                (fst (ls ! i), fst (snd (ls ! i)), 0)"
      by simp
  qed
  let ?f = "\<lambda>(a, b, seg) G. add_edge G a b [key \<mapsto> Geom seg]"
  let ?m = "\<lambda>(a, b, seg). ((a, b, 0 :: nat), [key \<mapsto> Geom seg])"
  have "fold ?f (l # ls) G = fold ?f ls (add_edge G a b [key \<mapsto> Geom seg])"
    by (simp add: l)
  also have "\<dots> = fold ?f ls ?G1" by (simp only: first)
  also have "\<dots> = ?G1\<lparr>edges := edges ?G1 @ map ?m ls\<rparr>"
    by (rule Cons.IH[OF p1 p2 p3])
  also have "\<dots> = G\<lparr>edges := edges G @ map ?m (l # ls)\<rparr>"
    by (simp add: l)
  finally show ?case .
qed

text \<open>
  When every link of the chain is between nodes of the graph, none is an edge of the
  graph yet and no two of them are the same edge, the \<open>k + 1\<close> links are \<open>k + 1\<close> new
  edges: the edges after the split are the edges without the split one, then the links.
\<close>

lemma split_edge_new_chain:
  fixes env :: "('r::{linorder,minus}) env" and g :: "'r geograph"
  assumes "reqs \<noteq> []" and "map_of eal (u, v, k) = Some (Geom line)"
  defines "g1 \<equiv> (if has_edge g (u, v, k) then remove_edge g (u, v, k) else g)"
  defines "ns \<equiv> sorted_intersection_nodes reqs"
  defines "segs \<equiv> sub_segments env line (map (\<lambda>n. the (map_of reqs n)) ns)"
  defines "links \<equiv> chain_links u ns v segs"
  defines "ls \<equiv> hd links # last links # butlast (tl links)"
  assumes "\<forall>(a, b, seg) \<in> set ls. a \<in> set (node_names g1) \<and> b \<in> set (node_names g1)"
    and "\<forall>(a, b, seg) \<in> set ls. \<forall>entry \<in> set (edges g1).
           \<not> same_edge (directed g1) (fst entry) (a, b, snd (snd (fst entry)))"
    and "\<forall>i < length ls. \<forall>j < i.
           \<not> same_edge (directed g1) (fst (ls ! j), fst (snd (ls ! j)), 0)
                (fst (ls ! i), fst (snd (ls ! i)), 0)"
  shows "split_edge env eal g ((u, v, k), reqs) =
           (g1\<lparr>edges := edges g1 @
                  map (\<lambda>(a, b, seg). ((a, b, 0), [edges_geometry_key g \<mapsto> Geom seg])) ls\<rparr>, None)"
    and "length ls = Suc (length reqs)"
proof -
  have len: "length links = Suc (length reqs)"
    unfolding links_def segs_def ns_def by (rule split_edge_chain(4)[OF assms(1,2)])
  then have "links \<noteq> []" by auto
  have "length (butlast (tl links)) = length reqs - 1" using len by simp
  then show "length ls = Suc (length reqs)" using assms(1) by (simp add: ls_def)
  show "split_edge env eal g ((u, v, k), reqs) =
           (g1\<lparr>edges := edges g1 @
                  map (\<lambda>(a, b, seg). ((a, b, 0), [edges_geometry_key g \<mapsto> Geom seg])) ls\<rparr>, None)"
    using split_edge_chain(1)[OF assms(1,2), of env g]
      fold_add_new_edges[OF assms(8,9,10), of "edges_geometry_key g"]
    unfolding ls_def links_def segs_def ns_def g1_def by simp
qed

text \<open>
  C6 fails on the loop road. One point is merged, so the loop has one split request and
  the chain has two links, \<open>A\<close> to \<open>i_P\<close> with the segment from \<open>(0, 0)\<close> to \<open>(1, 0)\<close> and
  \<open>i_P\<close> to \<open>A\<close> with the rest of the loop. On this undirected simple graph the two
  links are one edge: the merged graph has, besides the edge of the point, one edge
  between \<open>A\<close> and \<open>i_P\<close>, and its geometry is the rest of the loop.
\<close>

theorem split_of_loop_adds_one_edge:
  "snd (merge_points_into grid_env ring [(''P'', (1, -1), Map.empty)] ''both'') = None
   \<and> map fst (edges (fst (merge_points_into grid_env ring [(''P'', (1, -1), Map.empty)] ''both'')))
       = [(''P'', ''i_P'', 0), (''A'', ''i_P'', 0)]
   \<and> edge_attribute (fst (merge_points_into grid_env ring [(''P'', (1, -1), Map.empty)] ''both''))
        (''A'', ''i_P'', 0) ''geometry'' = Some (Geom [(1, 0), (2, 0), (2, 2), (0, 2), (0, 0)])
   \<and> sub_segments grid_env [(0, 0), (2, 0), (2, 2), (0, 2), (0, 0)] [1]
       = [[(0, 0), (1, 0)], [(1, 0), (2, 0), (2, 2), (0, 2), (0, 0)]]
   \<and> chain_links ''A'' [''i_P''] ''A''
        (sub_segments grid_env [(0, 0), (2, 0), (2, 2), (0, 2), (0, 0)] [1])
       = [(''A'', ''i_P'', [(0, 0), (1, 0)]),
          (''i_P'', ''A'', [(1, 0), (2, 0), (2, 2), (0, 2), (0, 0)])]"
  by code_simp

end
